(* ===== verification/Prelude.thy ===== *)
theory Prelude
  imports Main "HOL-Library.Word" "HOL-Library.Sublist" "HOL-Library.Char_ord"
    "HOL-Library.List_Lexorder"
begin

text \<open>
  The prelude of the development: the collections of lemmas the component theories share and
  the generic facts about lists, options and machine words they use. Nothing here is about
  the program.
\<close>

named_theorems cstr_rules \<open>reading C strings out of fixed-size character buffers\<close>
named_theorems str_rules \<open>the string operations of the C++ library\<close>
named_theorems frame_rules \<open>what an operation leaves unchanged\<close>

type_synonym u32 = "32 word"
type_synonym u64 = "64 word"
type_synonym byte = "8 word"

section \<open>Lists\<close>

lemma takeWhile_all: "(\<And>x. x \<in> set xs \<Longrightarrow> P x) \<Longrightarrow> takeWhile P xs = xs"
  by (simp add: takeWhile_eq_all_conv)

lemma dropWhile_none: "(\<And>x. x \<in> set xs \<Longrightarrow> P x) \<Longrightarrow> dropWhile P xs = []"
  by (simp add: dropWhile_eq_Nil_conv)

lemma takeWhile_cut:
  "(\<And>x. x \<in> set xs \<Longrightarrow> P x) \<Longrightarrow> \<not> P y \<Longrightarrow> takeWhile P (xs @ y # ys) = xs"
  by (simp add: takeWhile_append2)

lemma dropWhile_cut:
  "(\<And>x. x \<in> set xs \<Longrightarrow> P x) \<Longrightarrow> \<not> P y \<Longrightarrow> dropWhile P (xs @ y # ys) = y # ys"
  by (simp add: dropWhile_append2)

lemma length_dropWhile_less: "xs \<noteq> [] \<Longrightarrow> P (hd xs) \<Longrightarrow> length (dropWhile P xs) < length xs"
  by (cases xs) (auto simp: le_imp_less_Suc length_dropWhile_le)

lemma subseq_append_split: "subseq xs ys \<Longrightarrow> subseq (xs @ zs) (ys @ zs)"
  by (simp add: list_emb_append_mono)

lemma length_takeWhile_less: "\<exists>x \<in> set xs. \<not> P x \<Longrightarrow> length (takeWhile P xs) < length xs"
  by (induction xs) auto

lemma map_filter_set_subset: "set (filter P xs) \<subseteq> set xs"
  by auto

section \<open>Joining and splitting lists at a separator\<close>

fun join_with :: "'a \<Rightarrow> 'a list list \<Rightarrow> 'a list" where
  "join_with d [] = []"
| "join_with d [x] = x"
| "join_with d (x # y # zs) = x @ d # join_with d (y # zs)"

fun split_at :: "'a \<Rightarrow> 'a list \<Rightarrow> 'a list list" where
  "split_at d [] = [[]]"
| "split_at d (c # cs) =
     (if c = d then [] # split_at d cs
      else (case split_at d cs of [] \<Rightarrow> [[c]] | w # ws \<Rightarrow> (c # w) # ws))"

lemma split_at_not_Nil [simp]: "split_at d cs \<noteq> []"
  by (induction cs) (auto split: list.splits)

lemma split_at_no_sep: "d \<notin> set x \<Longrightarrow> split_at d x = [x]"
  by (induction x) auto

lemma split_at_append_sep: "d \<notin> set x \<Longrightarrow> split_at d (x @ d # ys) = x # split_at d ys"
  by (induction x) auto

lemma split_at_append: "split_at d (xs @ d # ys) = split_at d xs @ split_at d ys"
  by (induction xs) (auto split: list.splits simp: append_eq_Cons_conv)

lemma split_at_join:
  "xs \<noteq> [] \<Longrightarrow> (\<And>x. x \<in> set xs \<Longrightarrow> d \<notin> set x) \<Longrightarrow> split_at d (join_with d xs) = xs"
  by (induction d xs rule: join_with.induct) (simp_all add: split_at_no_sep split_at_append_sep)

lemma join_with_split: "join_with d (split_at d cs) = cs"
proof (induction cs)
  case Nil
  then show ?case by simp
next
  case (Cons c cs)
  obtain w ws where ws: "split_at d cs = w # ws"
    by (cases "split_at d cs") auto
  show ?case
    using Cons ws by (cases ws) auto
qed

lemma join_with_snoc: "xs \<noteq> [] \<Longrightarrow> join_with d (xs @ [y]) = join_with d xs @ d # y"
  by (induction d xs rule: join_with.induct) auto

lemma join_with_eq_Nil: "join_with d xs = [] \<longleftrightarrow> xs = [] \<or> xs = [[]]"
  by (cases "(d, xs)" rule: join_with.cases) auto

lemma hd_join_with: "xs \<noteq> [] \<Longrightarrow> hd xs \<noteq> [] \<Longrightarrow> hd (join_with d xs) = hd (hd xs)"
  by (cases "(d, xs)" rule: join_with.cases) auto

lemma count_join_with:
  "(\<And>x. x \<in> set xs \<Longrightarrow> d \<notin> set x) \<Longrightarrow> count_list (join_with d xs) d = length xs - 1"
  by (induction d xs rule: join_with.induct) auto

section \<open>Options\<close>

lemma option_case_None [simp]: "(case x of None \<Rightarrow> None | Some y \<Rightarrow> None) = None"
  by (cases x) auto

end
