(* ===== verification/Cxx.thy ===== *)
theory Cxx
  imports Prelude
begin

text \<open>
  The parts of C and of the C++ standard library that the program's own code is written in:
  failures, sizes of type \<open>size_t\<close>, the operations of \<open>std::string\<close> the source calls, decimal
  printing and parsing, the tokenising loops over \<open>std::istringstream\<close>, and C strings in
  fixed-size buffers. A thrown exception is a value of the sum type; undefined behaviour is
  kept apart from the exceptions.
\<close>

section \<open>Failures\<close>

datatype exn =
    Out_of_range
  | Invalid_argument
  | Runtime_error string
  | Json_parse_error
  | Json_type_error

datatype fault = Throw exn | Undefined_behaviour

section \<open>Sizes\<close>

text \<open>A \<open>size_t\<close> is a natural number below \<open>2 ^ 64\<close>; its sums and differences wrap around.\<close>

definition npos :: nat where "npos = 2 ^ 64 - 1"

definition sz_add :: "nat \<Rightarrow> nat \<Rightarrow> nat" where "sz_add a b = (a + b) mod 2 ^ 64"

definition sz_sub :: "nat \<Rightarrow> nat \<Rightarrow> nat" where "sz_sub a b = (a + 2 ^ 64 - b) mod 2 ^ 64"

text \<open>\<open>static_cast<size_t>\<close> of an \<open>int\<close>, and the two's complement reading of 32 bits.\<close>

definition to_size :: "int \<Rightarrow> nat" where "to_size i = nat (i mod 2 ^ 64)"

definition to_int32 :: "u32 \<Rightarrow> int" where "to_int32 w = sint w"

text \<open>Every string the program can hold is far shorter than \<open>size_t\<close> allows.\<close>

definition fits :: "string \<Rightarrow> bool" where "fits s \<longleftrightarrow> length s < 2 ^ 63"

lemma sz_add_small: "a + b < 2 ^ 64 \<Longrightarrow> sz_add a b = a + b"
  by (simp add: sz_add_def)

lemma sz_add_npos_Suc [simp]: "sz_add npos (Suc 0) = 0" "sz_add npos 1 = 0"
  by (simp_all add: sz_add_def npos_def)

lemma sz_sub_le: "b \<le> a \<Longrightarrow> a < 2 ^ 64 \<Longrightarrow> sz_sub a b = a - b"
proof -
  assume le: "b \<le> a" and lt: "a < 2 ^ 64"
  have "a + 2 ^ 64 - b = (a - b) + 2 ^ 64" using le by linarith
  then have "sz_sub a b = (a - b) mod 2 ^ 64"
    unfolding sz_sub_def by (simp only: mod_add_self2)
  also have "\<dots> = a - b" using lt by (intro mod_less) (rule le_less_trans [OF diff_le_self])
  finally show ?thesis .
qed

lemma to_size_nonneg: "0 \<le> i \<Longrightarrow> i < 2 ^ 64 \<Longrightarrow> to_size i = nat i"
  by (simp add: to_size_def)

section \<open>C strings in buffers\<close>

text \<open>
  \<open>cstr\<close> is the string a \<open>char[]\<close> buffer holds: \<open>std::string(buf)\<close> and every other reader stops
  at the first NUL byte. \<open>terminated n\<close> says that the buffer has its declared size and holds a
  NUL, so that such a read stays inside it. \<open>to_buf n s\<close> is the buffer \<open>strncpy\<close> or a
  truncating string copy leaves: at most \<open>n - 1\<close> bytes of the string, padded with NUL bytes.
\<close>

abbreviation NUL :: char where "NUL \<equiv> CHR 0x00"
abbreviation SLASH :: char where "SLASH \<equiv> CHR ''/''"

definition cstr :: "string \<Rightarrow> string" where
  "cstr buf = takeWhile (\<lambda>c. c \<noteq> NUL) buf"

definition terminated :: "nat \<Rightarrow> string \<Rightarrow> bool" where
  "terminated n buf \<longleftrightarrow> length buf = n \<and> NUL \<in> set buf"

definition zero_buf :: "nat \<Rightarrow> string" where
  "zero_buf n = replicate n NUL"

definition to_buf :: "nat \<Rightarrow> string \<Rightarrow> string" where
  "to_buf n s = (let t = take (n - 1) (cstr s) in t @ replicate (n - length t) NUL)"

lemma cstr_no_NUL [cstr_rules]: "NUL \<notin> set (cstr buf)"
  by (auto simp: cstr_def dest: set_takeWhileD)

lemma cstr_id [cstr_rules]: "NUL \<notin> set s \<Longrightarrow> cstr s = s"
  by (auto simp: cstr_def intro: takeWhile_all)

lemma cstr_Nil [simp]: "cstr [] = []"
  by (simp add: cstr_def)

lemma cstr_zero [simp, cstr_rules]: "cstr (zero_buf n) = []"
  by (cases n) (simp_all add: cstr_def zero_buf_def)

lemma zero_buf_terminated [simp]: "0 < n \<Longrightarrow> terminated n (zero_buf n)"
  by (simp add: terminated_def zero_buf_def)

lemma cstr_to_buf [cstr_rules]: "0 < n \<Longrightarrow> cstr (to_buf n s) = take (n - 1) (cstr s)"
proof -
  assume n: "0 < n"
  let ?t = "take (n - 1) (cstr s)"
  have len: "length ?t < n" using n by auto
  then obtain k where k: "n - length ?t = Suc k" by (metis Suc_diff_Suc)
  have "NUL \<notin> set ?t" using cstr_no_NUL by (meson in_set_takeD)
  then have "takeWhile (\<lambda>c. c \<noteq> NUL) (?t @ NUL # replicate k NUL) = ?t"
    by (intro takeWhile_cut) auto
  then have "takeWhile (\<lambda>c. c \<noteq> NUL) (?t @ replicate (n - length ?t) NUL) = ?t"
    by (simp only: k replicate_Suc)
  then show ?thesis by (simp only: to_buf_def Let_def cstr_def [of "_ @ _"])
qed

lemma to_buf_terminated [cstr_rules]: "0 < n \<Longrightarrow> terminated n (to_buf n s)"
  by (auto simp: to_buf_def terminated_def Let_def)

lemma length_cstr_terminated: "terminated n buf \<Longrightarrow> length (cstr buf) < n"
  by (auto simp: terminated_def cstr_def intro!: length_takeWhile_less)

section \<open>Strings\<close>

text \<open>
  Positions are \<open>size_t\<close> values and \<open>npos\<close> is "not found". \<open>substr\<close> throws
  \<open>std::out_of_range\<close> when the position is past the end of the string.
\<close>

definition str_find :: "string \<Rightarrow> char \<Rightarrow> nat \<Rightarrow> nat" where
  "str_find s c from =
     (if c \<in> set (drop from s) then from + length (takeWhile (\<lambda>x. x \<noteq> c) (drop from s))
      else npos)"

definition str_rfind :: "string \<Rightarrow> char \<Rightarrow> nat" where
  "str_rfind s c =
     (if c \<in> set s then length s - 1 - length (takeWhile (\<lambda>x. x \<noteq> c) (rev s)) else npos)"

definition substr :: "string \<Rightarrow> nat \<Rightarrow> nat \<Rightarrow> fault + string" where
  "substr s pos n = (if length s < pos then Inl (Throw Out_of_range) else Inr (take n (drop pos s)))"

lemma str_find_cut:
  "c \<notin> set xs \<Longrightarrow> str_find (xs @ c # ys) c 0 = length xs"
proof -
  assume "c \<notin> set xs"
  then have "takeWhile (\<lambda>x. x \<noteq> c) (xs @ c # ys) = xs" by (intro takeWhile_cut) auto
  then show ?thesis by (simp add: str_find_def)
qed

lemma str_rfind_cut:
  "c \<notin> set ys \<Longrightarrow> str_rfind (xs @ c # ys) c = length xs"
proof -
  assume "c \<notin> set ys"
  then have "takeWhile (\<lambda>x. x \<noteq> c) (rev ys @ c # rev xs) = rev ys"
    by (intro takeWhile_cut) auto
  then show ?thesis by (simp add: str_rfind_def)
qed

lemma str_find_none [str_rules]: "c \<notin> set s \<Longrightarrow> str_find s c n = npos"
  by (auto simp: str_find_def dest: in_set_dropD)

lemma str_rfind_none [str_rules]: "c \<notin> set s \<Longrightarrow> str_rfind s c = npos"
  by (simp add: str_rfind_def)

lemma substr_ok [str_rules]: "pos \<le> length s \<Longrightarrow> substr s pos n = Inr (take n (drop pos s))"
  by (simp add: substr_def)

lemma substr_throws [str_rules]: "length s < pos \<Longrightarrow> substr s pos n = Inl (Throw Out_of_range)"
  by (simp add: substr_def)

section \<open>Decimal printing and parsing\<close>

definition digit_char :: "nat \<Rightarrow> char" where
  "digit_char d = ''0123456789'' ! d"

definition is_digit :: "char \<Rightarrow> bool" where
  "is_digit c \<longleftrightarrow> c \<in> set ''0123456789''"

definition digit_val :: "char \<Rightarrow> nat" where
  "digit_val c = of_char c - 48"

definition is_space :: "char \<Rightarrow> bool" where
  "is_space c \<longleftrightarrow> c \<in> {CHR '' '', CHR 0x09, CHR 0x0A, CHR 0x0B, CHR 0x0C, CHR 0x0D}"

fun dec_of_nat :: "nat \<Rightarrow> string" where
  "dec_of_nat n =
     (if n < 10 then [digit_char n] else dec_of_nat (n div 10) @ [digit_char (n mod 10)])"

declare dec_of_nat.simps [simp del]

definition dec_of_int :: "int \<Rightarrow> string" where
  "dec_of_int i = (if i < 0 then CHR ''-'' # dec_of_nat (nat (- i)) else dec_of_nat (nat i))"

text \<open>\<open>std::to_string\<close> of an unsigned and of a signed value.\<close>

definition to_string_u :: "'a::len word \<Rightarrow> string" where
  "to_string_u w = dec_of_nat (unat w)"

definition to_string_i :: "int \<Rightarrow> string" where
  "to_string_i = dec_of_int"

definition dec_val :: "string \<Rightarrow> nat" where
  "dec_val ds = foldl (\<lambda>n c. 10 * n + digit_val c) 0 ds"

text \<open>
  The scan that \<open>strtol\<close> and \<open>strtoul\<close> share: white space, an optional sign, digits. \<open>None\<close>: no
  conversion could be performed.
\<close>

definition scan_int :: "string \<Rightarrow> int option" where
  "scan_int s =
     (let t = dropWhile is_space s;
          neg = (t \<noteq> [] \<and> hd t = CHR ''-'');
          u = (if t \<noteq> [] \<and> (hd t = CHR ''-'' \<or> hd t = CHR ''+'') then tl t else t);
          ds = takeWhile is_digit u
      in if ds = [] then None
         else Some (if neg then - int (dec_val ds) else int (dec_val ds)))"

definition stoi :: "string \<Rightarrow> fault + int" where
  "stoi s = (case scan_int s of
       None \<Rightarrow> Inl (Throw Invalid_argument)
     | Some v \<Rightarrow> if - (2 ^ 31) \<le> v \<and> v < 2 ^ 31 then Inr v else Inl (Throw Out_of_range))"

definition stol :: "string \<Rightarrow> fault + int" where
  "stol s = (case scan_int s of
       None \<Rightarrow> Inl (Throw Invalid_argument)
     | Some v \<Rightarrow> if - (2 ^ 63) \<le> v \<and> v < 2 ^ 63 then Inr v else Inl (Throw Out_of_range))"

text \<open>\<open>strtoul\<close> negates a signed magnitude modulo \<open>2 ^ 64\<close> and rejects only magnitudes too large.\<close>

definition stoul :: "string \<Rightarrow> fault + u64" where
  "stoul s = (case scan_int s of
       None \<Rightarrow> Inl (Throw Invalid_argument)
     | Some v \<Rightarrow> if \<bar>v\<bar> < 2 ^ 64 then Inr (word_of_int v) else Inl (Throw Out_of_range))"

lemma digit_cases: "d < 10 \<Longrightarrow> d \<in> {0, 1, 2, 3, 4, 5, 6, 7, 8, 9 :: nat}"
  by auto

lemma digit_char_digit: "d < 10 \<Longrightarrow> is_digit (digit_char d)"
  by (drule digit_cases) (auto simp: digit_char_def is_digit_def)

lemma digit_val_char: "d < 10 \<Longrightarrow> digit_val (digit_char d) = d"
  by (drule digit_cases) (auto simp: digit_char_def digit_val_def)

lemma digit_val_less: "is_digit c \<Longrightarrow> digit_val c < 10"
  by (auto simp: is_digit_def digit_val_def)

lemma digit_not_space: "is_digit c \<Longrightarrow> \<not> is_space c"
  by (auto simp: is_digit_def is_space_def)

lemma digit_not_sign: "is_digit c \<Longrightarrow> c \<noteq> CHR ''-'' \<and> c \<noteq> CHR ''+'' \<and> c \<noteq> CHR ''.''"
  by (auto simp: is_digit_def)

lemma dec_of_nat_digits: "c \<in> set (dec_of_nat n) \<Longrightarrow> is_digit c"
proof (induction n rule: dec_of_nat.induct)
  case (1 n)
  then show ?case
    by (cases "n < 10") (auto simp: dec_of_nat.simps [of n] digit_char_digit)
qed

lemma dec_of_nat_not_Nil [simp]: "dec_of_nat n \<noteq> []"
  by (simp add: dec_of_nat.simps [of n])

lemma dec_val_snoc: "dec_val (ds @ [c]) = 10 * dec_val ds + digit_val c"
  by (simp add: dec_val_def)

lemma dec_val_dec_of_nat: "dec_val (dec_of_nat n) = n"
proof (induction n rule: dec_of_nat.induct)
  case (1 n)
  show ?case
  proof (cases "n < 10")
    case True
    then show ?thesis by (simp add: dec_of_nat.simps [of n] dec_val_def digit_val_char)
  next
    case False
    with 1 show ?thesis by (simp add: dec_of_nat.simps [of n] dec_val_snoc digit_val_char)
  qed
qed

lemma dec_of_nat_inject: "dec_of_nat m = dec_of_nat n \<longleftrightarrow> m = n"
  by (metis dec_val_dec_of_nat)

lemma scan_int_digits:
  assumes "ds \<noteq> []" and "\<And>c. c \<in> set ds \<Longrightarrow> is_digit c"
  shows "scan_int ds = Some (int (dec_val ds))"
proof -
  obtain c cs where ds: "ds = c # cs" using assms(1) by (cases ds) auto
  with assms(2) have c: "is_digit c" by simp
  have "dropWhile is_space ds = ds" using c ds by (simp add: digit_not_space)
  moreover have "takeWhile is_digit ds = ds" using assms(2) by (rule takeWhile_all)
  ultimately show ?thesis
    using ds digit_not_sign [OF c] by (simp add: scan_int_def Let_def)
qed

lemma scan_int_dec_of_nat: "scan_int (dec_of_nat n) = Some (int n)"
  by (simp add: scan_int_digits dec_of_nat_digits dec_val_dec_of_nat)

lemma stol_to_string: "0 \<le> i \<Longrightarrow> i < 2 ^ 63 \<Longrightarrow> stol (to_string_i i) = Inr i"
  by (simp add: stol_def to_string_i_def dec_of_int_def scan_int_dec_of_nat)

lemma stoul_to_string_u32: "stoul (to_string_u (w :: u32)) = Inr (ucast w)"
proof -
  have "uint w < 2 ^ 32" using uint_lt2p [of w] by simp
  then have "uint w < 2 ^ 64" by simp
  then show ?thesis
    by (simp add: stoul_def to_string_u_def scan_int_dec_of_nat unsigned_ucast_eq)
qed

section \<open>Token streams\<close>

text \<open>\<open>while (std::getline(iss, token, d))\<close>: a final empty field is not delivered.\<close>

function getline_all :: "char \<Rightarrow> string \<Rightarrow> string list" where
  "getline_all d s =
     (if s = [] then []
      else takeWhile (\<lambda>c. c \<noteq> d) s #
           (case dropWhile (\<lambda>c. c \<noteq> d) s of [] \<Rightarrow> [] | _ # r \<Rightarrow> getline_all d r))"
  by pat_completeness auto
termination
proof (relation "measure (\<lambda>(d, s). length s)", simp)
  fix d s c r
  assume "dropWhile (\<lambda>c. c \<noteq> d) s = c # r"
  then have "length (c # r) \<le> length s" by (metis length_dropWhile_le)
  then show "((d, r), d, s) \<in> measure (\<lambda>(d, s). length s)" by simp
qed

declare getline_all.simps [simp del]

text \<open>\<open>while (iss >> token)\<close>: the maximal runs of non-space characters.\<close>

function tokens :: "string \<Rightarrow> string list" where
  "tokens s =
     (let t = dropWhile is_space s
      in if t = [] then []
         else takeWhile (\<lambda>c. \<not> is_space c) t # tokens (dropWhile (\<lambda>c. \<not> is_space c) t))"
  by pat_completeness auto
termination
proof (relation "measure length", simp)
  fix s t
  assume t: "t = dropWhile is_space s" and ne: "t \<noteq> []"
  then have "\<not> is_space (hd t)" by (simp add: hd_dropWhile)
  then have "length (dropWhile (\<lambda>c. \<not> is_space c) t) < length t"
    using ne by (intro length_dropWhile_less) auto
  also have "length t \<le> length s" using t by (simp add: length_dropWhile_le)
  finally show "(dropWhile (\<lambda>c. \<not> is_space c) t, s) \<in> measure length" by simp
qed

declare tokens.simps [simp del]

lemma tokens_cons:
  assumes "w \<noteq> []" and "\<And>c. c \<in> set w \<Longrightarrow> \<not> is_space c"
  shows "tokens (w @ CHR '' '' # s) = w # tokens (CHR '' '' # s)"
proof -
  have sp: "is_space (CHR '' '')" by (simp add: is_space_def)
  have d: "dropWhile is_space (w @ CHR '' '' # s) = w @ CHR '' '' # s"
    using assms by (cases w) auto
  have "takeWhile (\<lambda>c. \<not> is_space c) (w @ CHR '' '' # s) = w"
    by (rule takeWhile_cut) (use assms sp in auto)
  moreover have "dropWhile (\<lambda>c. \<not> is_space c) (w @ CHR '' '' # s) = CHR '' '' # s"
    by (rule dropWhile_cut) (use assms sp in auto)
  ultimately show ?thesis
    by (subst tokens.simps) (simp add: d)
qed

lemma tokens_space: "is_space c \<Longrightarrow> tokens (c # s) = tokens s"
  by (simp add: tokens.simps [of "c # s"] tokens.simps [of s])

lemma tokens_step:
  "dropWhile is_space s = s \<Longrightarrow> s \<noteq> [] \<Longrightarrow>
   tokens s = takeWhile (\<lambda>c. \<not> is_space c) s # tokens (dropWhile (\<lambda>c. \<not> is_space c) s)"
  by (subst tokens.simps) (simp only: Let_def if_False)

section \<open>Ordered maps\<close>

text \<open>
  A \<open>std::map\<close> as its entries in key order: assignment through \<open>operator[]\<close>, \<open>insert\<close>, which
  leaves an entry that is already there alone, and \<open>erase\<close> by key. Lookup is \<open>map_of\<close>.
\<close>

fun om_put :: "'k::linorder \<Rightarrow> 'v \<Rightarrow> ('k \<times> 'v) list \<Rightarrow> ('k \<times> 'v) list" where
  "om_put k v [] = [(k, v)]"
| "om_put k v ((k', v') # m) =
     (if k = k' then (k, v) # m
      else if k < k' then (k, v) # (k', v') # m
      else (k', v') # om_put k v m)"

definition om_insert :: "'k::linorder \<Rightarrow> 'v \<Rightarrow> ('k \<times> 'v) list \<Rightarrow> ('k \<times> 'v) list" where
  "om_insert k v m = (if map_of m k = None then om_put k v m else m)"

definition om_del :: "'k \<Rightarrow> ('k \<times> 'v) list \<Rightarrow> ('k \<times> 'v) list" where
  "om_del k m = filter (\<lambda>(k', v). k' \<noteq> k) m"

definition om_wf :: "('k::linorder \<times> 'v) list \<Rightarrow> bool" where
  "om_wf m \<longleftrightarrow> sorted_wrt (<) (map fst m)"

lemma map_of_om_put [simp]: "map_of (om_put k v m) = (map_of m)(k \<mapsto> v)"
  by (induction k v m rule: om_put.induct) (auto simp: fun_eq_iff)

lemma map_of_om_insert [simp]:
  "map_of (om_insert k v m) = (if map_of m k = None then (map_of m)(k \<mapsto> v) else map_of m)"
  by (simp add: om_insert_def)

lemma map_of_om_del [simp]: "map_of (om_del k m) = (map_of m)(k := None)"
  by (induction m) (auto simp: om_del_def fun_eq_iff)

lemma keys_om_put [simp]: "fst ` set (om_put k v m) = insert k (fst ` set m)"
  by (induction k v m rule: om_put.induct) auto

lemma om_wf_Nil [simp]: "om_wf []"
  by (simp add: om_wf_def)

lemma om_wf_put [simp]: "om_wf m \<Longrightarrow> om_wf (om_put k v m)"
proof (induction k v m rule: om_put.induct)
  case (2 k v k' v' m)
  have "set (map fst (om_put k v m)) = insert k (set (map fst m))" by simp
  with 2 show ?case
    by (auto simp: om_wf_def simp del: set_map list.set_map dest: less_trans)
qed (simp add: om_wf_def)

lemma om_wf_del [simp]: "om_wf m \<Longrightarrow> om_wf (om_del k m)"
proof (induction m)
  case (Cons p m)
  then show ?case by (cases p) (auto simp: om_wf_def om_del_def)
qed (simp add: om_del_def)

lemma om_wf_distinct: "om_wf m \<Longrightarrow> distinct (map fst m)"
  by (simp add: om_wf_def strict_sorted_iff)

end
