(* ===== verification/Event.thy ===== *)
theory Event
  imports Cxx
begin

text \<open>
  The data shared between the BPF programs and user space, \<open>src/include/filetrace.h\<close>: the size
  constants, the event record with its fixed-size character buffers, the process-information
  record kept in \<open>exec_map\<close>, the system-call flags and the table of their names.
\<close>

section \<open>Constants\<close>

definition MAX_DEPTH :: nat where "MAX_DEPTH = 4"
definition MAX_DIRNAME_LEN :: nat where "MAX_DIRNAME_LEN = 16"
definition MAX_FILENAME_LEN :: nat where "MAX_FILENAME_LEN = 64"
definition MAX_CMD_LEN :: nat where "MAX_CMD_LEN = 32"
definition ARGSIZE :: nat where "ARGSIZE = 16"
definition TASK_COMM_LEN :: nat where "TASK_COMM_LEN = 16"

definition S_IFMT :: "16 word" where "S_IFMT = 0xF000"
definition S_IFREG :: "16 word" where "S_IFREG = 0x8000"
definition PF_KTHREAD :: u32 where "PF_KTHREAD = 0x00200000"
definition AT_FDCWD :: int where "AT_FDCWD = -100"

lemmas size_consts = MAX_DEPTH_def MAX_DIRNAME_LEN_def MAX_FILENAME_LEN_def MAX_CMD_LEN_def
  ARGSIZE_def TASK_COMM_LEN_def

section \<open>Records\<close>

record event =
  ev_pid :: u32
  ev_ppid :: u32
  ev_cmd :: string
  ev_pcmd :: string
  ev_i_ino :: u64
  ev_filename :: string
  ev_dir1 :: string
  ev_dir2 :: string
  ev_dir3 :: string
  ev_dir4 :: string
  ev_oldfilename :: string
  ev_odir1 :: string
  ev_odir2 :: string
  ev_odir3 :: string
  ev_odir4 :: string
  ev_flag :: int
  ev_uid :: u32
  ev_gid :: u32

text \<open>\<open>__builtin_memset(e, 0, sizeof(struct event))\<close>, and the shape every event keeps.\<close>

definition zero_event :: event where
  "zero_event =
     \<lparr>ev_pid = 0, ev_ppid = 0, ev_cmd = zero_buf TASK_COMM_LEN, ev_pcmd = zero_buf TASK_COMM_LEN,
      ev_i_ino = 0, ev_filename = zero_buf MAX_FILENAME_LEN,
      ev_dir1 = zero_buf MAX_DIRNAME_LEN, ev_dir2 = zero_buf MAX_DIRNAME_LEN,
      ev_dir3 = zero_buf MAX_DIRNAME_LEN, ev_dir4 = zero_buf MAX_DIRNAME_LEN,
      ev_oldfilename = zero_buf MAX_FILENAME_LEN,
      ev_odir1 = zero_buf MAX_DIRNAME_LEN, ev_odir2 = zero_buf MAX_DIRNAME_LEN,
      ev_odir3 = zero_buf MAX_DIRNAME_LEN, ev_odir4 = zero_buf MAX_DIRNAME_LEN,
      ev_flag = 0, ev_uid = 0, ev_gid = 0\<rparr>"

definition event_wf :: "event \<Rightarrow> bool" where
  "event_wf e \<longleftrightarrow>
     terminated TASK_COMM_LEN (ev_cmd e) \<and> terminated TASK_COMM_LEN (ev_pcmd e) \<and>
     terminated MAX_FILENAME_LEN (ev_filename e) \<and>
     terminated MAX_FILENAME_LEN (ev_oldfilename e) \<and>
     terminated MAX_DIRNAME_LEN (ev_dir1 e) \<and> terminated MAX_DIRNAME_LEN (ev_dir2 e) \<and>
     terminated MAX_DIRNAME_LEN (ev_dir3 e) \<and> terminated MAX_DIRNAME_LEN (ev_dir4 e) \<and>
     terminated MAX_DIRNAME_LEN (ev_odir1 e) \<and> terminated MAX_DIRNAME_LEN (ev_odir2 e) \<and>
     terminated MAX_DIRNAME_LEN (ev_odir3 e) \<and> terminated MAX_DIRNAME_LEN (ev_odir4 e)"

lemma zero_event_wf [simp]: "event_wf zero_event"
  by (simp add: event_wf_def zero_event_def size_consts)

record pinfo_t =
  pi_pid :: u32
  pi_comm :: string
  pi_arg1 :: string
  pi_arg2 :: string
  pi_arg3 :: string
  pi_arg4 :: string

definition zero_pinfo :: pinfo_t where
  "zero_pinfo = \<lparr>pi_pid = 0, pi_comm = zero_buf MAX_CMD_LEN, pi_arg1 = zero_buf ARGSIZE,
     pi_arg2 = zero_buf ARGSIZE, pi_arg3 = zero_buf ARGSIZE, pi_arg4 = zero_buf ARGSIZE\<rparr>"

section \<open>System-call flags\<close>

datatype syscall_flag =
    SYS_unlinkat
  | SYS_copy_file_range
  | SYS_rename
  | SYS_renameat
  | SYS_renameat2
  | SYS_write
  | SYS_openat
  | SYS_dup2
  | SYS_NR_MAX

primrec flag_code :: "syscall_flag \<Rightarrow> int" where
  "flag_code SYS_unlinkat = 0"
| "flag_code SYS_copy_file_range = 1"
| "flag_code SYS_rename = 2"
| "flag_code SYS_renameat = 3"
| "flag_code SYS_renameat2 = 4"
| "flag_code SYS_write = 5"
| "flag_code SYS_openat = 6"
| "flag_code SYS_dup2 = 7"
| "flag_code SYS_NR_MAX = 8"

definition nr_map :: "string list" where
  "nr_map = [''sys_enter_unlinkat'', ''sys_enter_copy_file_range'', ''sys_enter_rename'',
     ''sys_enter_renameat'', ''sys_enter_renameat2'', ''sys_enter_write'',
     ''sys_enter_openat'', ''sys_enter_dup2'']"

text \<open>
  Indexing the C array \<open>nr_map\<close> by the \<open>int\<close> field of an event: undefined outside the table.
\<close>

definition nr_name :: "int \<Rightarrow> fault + string" where
  "nr_name f = (if 0 \<le> f \<and> f < int (length nr_map) then Inr (nr_map ! nat f)
                else Inl Undefined_behaviour)"

instantiation syscall_flag :: linorder
begin

definition less_eq_syscall_flag :: "syscall_flag \<Rightarrow> syscall_flag \<Rightarrow> bool" where
  "less_eq_syscall_flag a b \<longleftrightarrow> flag_code a \<le> flag_code b"

definition less_syscall_flag :: "syscall_flag \<Rightarrow> syscall_flag \<Rightarrow> bool" where
  "less_syscall_flag a b \<longleftrightarrow> flag_code a < flag_code b"

instance
proof
  fix a b :: syscall_flag
  assume "a \<le> b" and "b \<le> a"
  then show "a = b" by (cases a; cases b) (simp_all add: less_eq_syscall_flag_def)
qed (auto simp: less_eq_syscall_flag_def less_syscall_flag_def)

end

lemma flag_code_inject: "flag_code a = flag_code b \<longleftrightarrow> a = b"
  by (cases a; cases b) simp_all

lemma nr_name_flag: "f < SYS_NR_MAX \<Longrightarrow> nr_name (flag_code f) = Inr (nr_map ! nat (flag_code f))"
  by (cases f) (simp_all add: nr_name_def nr_map_def less_syscall_flag_def)

lemma nr_name_Inr: "0 \<le> f \<Longrightarrow> f < 8 \<Longrightarrow> nr_name f = Inr (nr_map ! nat f)"
  by (simp add: nr_name_def nr_map_def)

lemma nr_name_undefined: "nr_name (flag_code SYS_NR_MAX) = Inl Undefined_behaviour"
  by (simp add: nr_name_def nr_map_def)

end
