(* ===== verification/Files.thy ===== *)
theory Files
  imports Cxx
begin

text \<open>
  The file operations the program performs through \<open>std::ofstream\<close>, \<open>std::rename\<close>, \<open>stat\<close> and
  \<open>mkdir\<close>, over a store of names and inodes: a stream that is open keeps writing to its inode
  whatever happens to the name, which is what closing before renaming is about. What the
  operating system permits (\<open>fs_may_open\<close>, \<open>fs_may_rename\<close>, \<open>fs_may_mkdir\<close>) and how many bytes
  of one write the device accepts (\<open>fs_room\<close>) are fields the operations never change. The
  locale \<open>file_store\<close> is the interface the logger and the configuration writer rely on.
\<close>

section \<open>The store\<close>

record fs =
  fs_names :: "string \<Rightarrow> nat option"
  fs_data :: "nat \<Rightarrow> string"
  fs_next :: nat
  fs_dirs :: "string list"
  fs_may_open :: "string \<Rightarrow> bool"
  fs_may_rename :: "string \<Rightarrow> string \<Rightarrow> bool"
  fs_may_mkdir :: "string \<Rightarrow> bool"
  fs_room :: nat

definition contents :: "fs \<Rightarrow> string \<Rightarrow> string option" where
  "contents f p = map_option (fs_data f) (fs_names f p)"

text \<open>Distinct names have distinct inodes, and no name has an inode not yet handed out.\<close>

definition fs_wf :: "fs \<Rightarrow> bool" where
  "fs_wf f \<longleftrightarrow>
     (\<forall>p i. fs_names f p = Some i \<longrightarrow> i < fs_next f) \<and>
     (\<forall>p q i. fs_names f p = Some i \<longrightarrow> fs_names f q = Some i \<longrightarrow> p = q)"

text \<open>The directory part of a path: what \<open>filepath.rfind('/')\<close> cuts off.\<close>

definition dir_of :: "string \<Rightarrow> string option" where
  "dir_of p = (let pos = str_rfind p SLASH in
     if pos \<noteq> npos \<and> pos > 0 then Some (take pos p) else None)"

definition dir_ok :: "fs \<Rightarrow> string \<Rightarrow> bool" where
  "dir_ok f p \<longleftrightarrow> (case dir_of p of None \<Rightarrow> True | Some d \<Rightarrow> d \<in> set (fs_dirs f))"

definition can_open :: "fs \<Rightarrow> string \<Rightarrow> bool" where
  "can_open f p \<longleftrightarrow> fs_may_open f p \<and> dir_ok f p"

section \<open>Operations\<close>

definition create_file :: "fs \<Rightarrow> string \<Rightarrow> nat \<times> fs" where
  "create_file f p = (fs_next f, f\<lparr>fs_names := (fs_names f)(p \<mapsto> fs_next f),
     fs_data := (fs_data f)(fs_next f := []), fs_next := Suc (fs_next f)\<rparr>)"

text \<open>\<open>ofstream::open(p, ios::app)\<close> and \<open>ofstream(p, ios::trunc)\<close>: the open stream's inode.\<close>

definition open_app :: "fs \<Rightarrow> string \<Rightarrow> nat option \<times> fs" where
  "open_app f p =
     (if \<not> can_open f p then (None, f)
      else case fs_names f p of Some i \<Rightarrow> (Some i, f)
           | None \<Rightarrow> (case create_file f p of (i, f') \<Rightarrow> (Some i, f')))"

definition open_trunc :: "fs \<Rightarrow> string \<Rightarrow> nat option \<times> fs" where
  "open_trunc f p =
     (if \<not> can_open f p then (None, f)
      else case fs_names f p of Some i \<Rightarrow> (Some i, f\<lparr>fs_data := (fs_data f)(i := [])\<rparr>)
           | None \<Rightarrow> (case create_file f p of (i, f') \<Rightarrow> (Some i, f')))"

text \<open>\<open>ofs << s\<close>: the device takes at most \<open>fs_room\<close> bytes, and the source never checks.\<close>

definition write_to :: "fs \<Rightarrow> nat \<Rightarrow> string \<Rightarrow> fs" where
  "write_to f i s = f\<lparr>fs_data := (fs_data f)(i := fs_data f i @ take (fs_room f) s)\<rparr>"

definition rename_file :: "fs \<Rightarrow> string \<Rightarrow> string \<Rightarrow> int \<times> fs" where
  "rename_file f a b =
     (if fs_names f a \<noteq> None \<and> fs_may_rename f a b
      then (0, f\<lparr>fs_names := ((fs_names f)(a := None))(b := fs_names f a)\<rparr>)
      else (-1, f))"

definition stat_size :: "fs \<Rightarrow> string \<Rightarrow> nat option" where
  "stat_size f p = map_option length (contents f p)"

definition make_dir :: "fs \<Rightarrow> string \<Rightarrow> fs" where
  "make_dir f d = (if fs_may_mkdir f d then f\<lparr>fs_dirs := d # fs_dirs f\<rparr> else f)"

text \<open>A stream on inode \<open>i\<close> writes the file that \<open>p\<close> names.\<close>

definition names_inode :: "fs \<Rightarrow> nat \<Rightarrow> string \<Rightarrow> bool" where
  "names_inode f i p \<longleftrightarrow> fs_names f p = Some i"

section \<open>The interface\<close>

text \<open>
  What a client of the store may rely on. \<open>good\<close> is the store's own invariant, \<open>on s h p\<close> says
  that the open stream \<open>h\<close> writes the file named \<open>p\<close>, \<open>took s t\<close> is the part of \<open>t\<close> a write
  stores, \<open>get\<close> reads a file by name.
\<close>

locale file_store =
  fixes good :: "'s \<Rightarrow> bool"
    and get :: "'s \<Rightarrow> string \<Rightarrow> string option"
    and on :: "'s \<Rightarrow> 'h \<Rightarrow> string \<Rightarrow> bool"
    and took :: "'s \<Rightarrow> string \<Rightarrow> string"
    and otrunc :: "'s \<Rightarrow> string \<Rightarrow> 'h option \<times> 's"
    and oapp :: "'s \<Rightarrow> string \<Rightarrow> 'h option \<times> 's"
    and wr :: "'s \<Rightarrow> 'h \<Rightarrow> string \<Rightarrow> 's"
    and mv :: "'s \<Rightarrow> string \<Rightarrow> string \<Rightarrow> int \<times> 's"
  assumes trunc_fail: "otrunc s p = (None, s') \<Longrightarrow> s' = s"
    and trunc_ok: "good s \<Longrightarrow> otrunc s p = (Some h, s') \<Longrightarrow>
      good s' \<and> on s' h p \<and> get s' = (get s)(p \<mapsto> []) \<and> took s' = took s"
    and app_fail: "oapp s p = (None, s') \<Longrightarrow> s' = s"
    and app_ok: "good s \<Longrightarrow> oapp s p = (Some h, s') \<Longrightarrow>
      good s' \<and> on s' h p \<and> took s' = took s \<and>
      get s' = (get s)(p \<mapsto> (case get s p of None \<Rightarrow> [] | Some d \<Rightarrow> d))"
    and wr_ok: "good s \<Longrightarrow> on s h p \<Longrightarrow> get s p = Some d \<Longrightarrow>
      good (wr s h t) \<and> on (wr s h t) h p \<and> get (wr s h t) = (get s)(p \<mapsto> d @ took s t)"
    and mv_fail: "mv s a b = (r, s') \<Longrightarrow> r \<noteq> 0 \<Longrightarrow> s' = s"
    and mv_ok: "good s \<Longrightarrow> mv s a b = (0, s') \<Longrightarrow>
      good s' \<and> get s a \<noteq> None \<and> get s' = ((get s)(a := None))(b := get s a)"
begin

text \<open>
  Writing a file through a temporary name: whatever step fails, the target keeps its old
  contents; when the rename succeeds it holds exactly the bytes the write stored.
\<close>

lemma saved_through_tmp:
  assumes "good s" and "otrunc s tmp = (Some h, s1)" and "mv (wr s1 h t) tmp p = (0, s2)"
    and "tmp \<noteq> p"
  shows "good s2 \<and> get s2 = (get s)(tmp := None, p \<mapsto> took s t)"
proof -
  from trunc_ok [OF assms(1,2)] have s1: "good s1" "on s1 h tmp" "get s1 = (get s)(tmp \<mapsto> [])"
    "took s1 = took s" by auto
  then have "get s1 tmp = Some []" by simp
  from wr_ok [OF s1(1,2) this, of t] have w: "good (wr s1 h t)"
    "get (wr s1 h t) = (get s)(tmp \<mapsto> took s t)" using s1 by auto
  from mv_ok [OF w(1) assms(3)] show ?thesis using w(2) assms(4) by (auto simp: fun_eq_iff)
qed

lemma target_kept_on_failure:
  assumes "good s" and "otrunc s tmp = (Some h, s1)" and "mv (wr s1 h t) tmp p = (r, s2)"
    and "r \<noteq> 0" and "q \<noteq> tmp"
  shows "get s2 q = get s q"
proof -
  from trunc_ok [OF assms(1,2)] have s1: "good s1" "on s1 h tmp" "get s1 = (get s)(tmp \<mapsto> [])"
    by auto
  then have "get s1 tmp = Some []" by simp
  from wr_ok [OF s1(1,2) this, of t] have "get (wr s1 h t) q = get s q"
    using s1 assms(5) by simp
  with mv_fail [OF assms(3,4)] show ?thesis by simp
qed

text \<open>Moving a file away and reopening its name: the old contents survive under the new name.\<close>

lemma moved_and_reopened:
  assumes "good s" and "mv s p bak = (0, s1)" and "oapp s1 p = (Some h, s2)" and "bak \<noteq> p"
  shows "good s2 \<and> on s2 h p \<and> get s2 = (get s)(bak := get s p, p \<mapsto> []) \<and> took s2 = took s1"
proof -
  from mv_ok [OF assms(1,2)] have s1: "good s1" "get s1 = ((get s)(p := None))(bak := get s p)"
    by auto
  then have "get s1 p = None" using assms(4) by simp
  with app_ok [OF s1(1) assms(3)] s1(2) show ?thesis using assms(4) by (auto simp: fun_eq_iff)
qed

end

section \<open>The store implements the interface\<close>

lemma contents_upd:
  "fs_wf f \<Longrightarrow> fs_names f p = Some i \<Longrightarrow>
   contents (f\<lparr>fs_data := (fs_data f)(i := d)\<rparr>) = (contents f)(p \<mapsto> d)"
  by (rule ext) (auto simp: contents_def fs_wf_def map_option_case split: option.splits)

lemma create_file_spec:
  assumes "fs_wf f" and "fs_names f p = None" and "create_file f p = (i, f')"
  shows "fs_wf f' \<and> names_inode f' i p \<and> contents f' = (contents f)(p \<mapsto> []) \<and> fs_room f' = fs_room f"
proof -
  have wf: "\<And>q j. fs_names f q = Some j \<Longrightarrow> j < fs_next f"
    and inj: "\<And>q r j. fs_names f q = Some j \<Longrightarrow> fs_names f r = Some j \<Longrightarrow> q = r"
    using assms(1) by (auto simp: fs_wf_def)
  have f': "i = fs_next f" "f' = f\<lparr>fs_names := (fs_names f)(p \<mapsto> fs_next f),
     fs_data := (fs_data f)(fs_next f := []), fs_next := Suc (fs_next f)\<rparr>"
    using assms(3) by (auto simp: create_file_def)
  have "fs_wf f'"
    unfolding fs_wf_def f' by (auto dest: wf inj intro: less_SucI)
  moreover have "contents f' = (contents f)(p \<mapsto> [])"
    unfolding f' by (rule ext) (auto simp: contents_def map_option_case dest: wf split: option.splits)
  ultimately show ?thesis by (simp add: f' names_inode_def)
qed

lemma open_trunc_spec:
  assumes "fs_wf f" and "open_trunc f p = (Some i, f')"
  shows "fs_wf f' \<and> names_inode f' i p \<and> contents f' = (contents f)(p \<mapsto> []) \<and> fs_room f' = fs_room f"
proof (cases "fs_names f p")
  case None
  then obtain j g where "create_file f p = (j, g)" by fastforce
  with None assms(2) have "create_file f p = (i, f')"
    by (auto simp: open_trunc_def split: if_splits)
  with create_file_spec [OF assms(1) None] show ?thesis by blast
next
  case (Some j)
  with assms(2) have "j = i" "f' = f\<lparr>fs_data := (fs_data f)(i := [])\<rparr>"
    by (auto simp: open_trunc_def split: if_splits)
  with Some assms(1) show ?thesis by (auto simp: contents_upd names_inode_def fs_wf_def)
qed

lemma open_app_spec:
  assumes "fs_wf f" and "open_app f p = (Some i, f')"
  shows "fs_wf f' \<and> names_inode f' i p \<and> fs_room f' = fs_room f \<and>
    contents f' = (contents f)(p \<mapsto> (case contents f p of None \<Rightarrow> [] | Some d \<Rightarrow> d))"
proof (cases "fs_names f p")
  case None
  then obtain j g where "create_file f p = (j, g)" by fastforce
  with None assms(2) have "create_file f p = (i, f')"
    by (auto simp: open_app_def split: if_splits)
  moreover have "contents f p = None" using None by (simp add: contents_def)
  ultimately show ?thesis using create_file_spec [OF assms(1) None] by auto
next
  case (Some j)
  with assms(2) have "j = i" "f' = f"
    by (auto simp: open_app_def split: if_splits)
  with Some assms(1) show ?thesis by (auto simp: contents_def names_inode_def fun_eq_iff)
qed

lemma write_to_spec:
  assumes "fs_wf f" and "names_inode f i p" and "contents f p = Some d"
  shows "fs_wf (write_to f i t) \<and> names_inode (write_to f i t) i p \<and>
    contents (write_to f i t) = (contents f)(p \<mapsto> d @ take (fs_room f) t)"
proof -
  have "fs_names f p = Some i" using assms(2) by (simp add: names_inode_def)
  moreover from this have "fs_data f i = d" using assms(3) by (simp add: contents_def)
  ultimately show ?thesis
    using assms(1) by (auto simp: write_to_def contents_upd names_inode_def fs_wf_def)
qed

lemma rename_file_spec:
  assumes "fs_wf f" and "rename_file f a b = (0, f')"
  shows "fs_wf f' \<and> contents f a \<noteq> None \<and> contents f' = ((contents f)(a := None))(b := contents f a)"
proof -
  have f': "fs_names f a \<noteq> None" "f' = f\<lparr>fs_names := ((fs_names f)(a := None))(b := fs_names f a)\<rparr>"
    using assms(2) by (auto simp: rename_file_def split: if_splits)
  have "fs_wf f'"
    using assms(1) unfolding fs_wf_def f'(2) by (auto split: if_splits)
  then show ?thesis using f' by (auto simp: contents_def fun_eq_iff)
qed

lemma open_fail:
  "open_trunc f p = (None, f') \<Longrightarrow> f' = f"
  "open_app f p = (None, f') \<Longrightarrow> f' = f"
  by (auto simp: open_trunc_def open_app_def split: if_splits option.splits prod.splits)

lemma rename_file_fail: "rename_file f a b = (r, f') \<Longrightarrow> r \<noteq> 0 \<Longrightarrow> f' = f"
  by (auto simp: rename_file_def split: if_splits)

interpretation store: file_store fs_wf contents names_inode "\<lambda>f. take (fs_room f)" open_trunc open_app
    write_to rename_file
proof (unfold_locales, goal_cases)
  case (1 s p s') then show ?case by (rule open_fail)
next
  case (2 s p h s') then show ?case using open_trunc_spec [of s p h s'] by simp
next
  case (3 s p s') then show ?case by (rule open_fail)
next
  case (4 s p h s') then show ?case using open_app_spec [of s p h s'] by simp
next
  case (5 s h p d t) then show ?case by (rule write_to_spec)
next
  case (6 s a b r s') then show ?case by (rule rename_file_fail)
next
  case (7 s a b s') then show ?case by (rule rename_file_spec)
qed

end
