(* ===== verification/Logger.thy ===== *)
theory Logger
  imports Files
begin

text \<open>
  The logger, \<open>src/logger.cpp\<close> and \<open>src/include/logger.hpp\<close>: severity levels and the threshold,
  the one open stream on the log file, rotation to a time-stamped backup when the file has
  reached its size limit, and the fallback to standard error. The file-scope variables are the
  fields of \<open>logger\<close>; the file system is one of them. Broken-down local time (\<open>localtime_r\<close>) is
  an argument.
\<close>

section \<open>Levels\<close>

datatype level = INFO | WARN | ERROR | DEBUG

definition parse_level :: "string \<Rightarrow> level" where
  "parse_level s =
     (if s = ''warn'' \<or> s = ''WARN'' \<or> s = ''Warn'' then WARN
      else if s = ''error'' \<or> s = ''ERROR'' \<or> s = ''Error'' then ERROR
      else if s = ''debug'' \<or> s = ''DEBUG'' \<or> s = ''Debug'' then DEBUG
      else INFO)"

primrec severity_rank :: "level \<Rightarrow> int" where
  "severity_rank DEBUG = 0"
| "severity_rank INFO = 1"
| "severity_rank WARN = 2"
| "severity_rank ERROR = 3"

primrec level_name :: "level \<Rightarrow> string" where
  "level_name INFO = ''INFO''"
| "level_name WARN = ''WARN''"
| "level_name ERROR = ''ERROR''"
| "level_name DEBUG = ''DEBUG''"

text \<open>Levels are ordered by severity, not by the numbers of the C++ enumeration.\<close>

instantiation level :: linorder
begin

definition less_eq_level :: "level \<Rightarrow> level \<Rightarrow> bool" where
  "less_eq_level a b \<longleftrightarrow> severity_rank a \<le> severity_rank b"

definition less_level :: "level \<Rightarrow> level \<Rightarrow> bool" where
  "less_level a b \<longleftrightarrow> severity_rank a < severity_rank b"

instance
proof
  fix a b :: level
  assume "a \<le> b" and "b \<le> a"
  then show "a = b" by (cases a; cases b) (simp_all add: less_eq_level_def)
qed (auto simp: less_eq_level_def less_level_def)

end

section \<open>Time stamps and names\<close>

record tm =
  tm_year :: nat
  tm_mon :: nat
  tm_mday :: nat
  tm_hour :: nat
  tm_min :: nat
  tm_sec :: nat

definition pad2 :: "nat \<Rightarrow> string" where
  "pad2 n = (if n < 10 then ''0'' else []) @ dec_of_nat n"

text \<open>\<open>put_time\<close> with \<open>%Y%m%d_%H%M%S\<close> and with \<open>%Y-%m-%dT%H:%M:%S\<close>.\<close>

definition backup_stamp :: "tm \<Rightarrow> string" where
  "backup_stamp t = dec_of_nat (tm_year t) @ pad2 (tm_mon t) @ pad2 (tm_mday t) @ ''_'' @
     pad2 (tm_hour t) @ pad2 (tm_min t) @ pad2 (tm_sec t)"

definition now_iso8601 :: "tm \<Rightarrow> string" where
  "now_iso8601 t = dec_of_nat (tm_year t) @ ''-'' @ pad2 (tm_mon t) @ ''-'' @ pad2 (tm_mday t) @
     ''T'' @ pad2 (tm_hour t) @ '':'' @ pad2 (tm_min t) @ '':'' @ pad2 (tm_sec t)"

text \<open>\<open>strrchr\<close>: what follows the last slash; a null pointer is \<open>None\<close>.\<close>

definition basename_of_path :: "string option \<Rightarrow> string" where
  "basename_of_path p = (case p of None \<Rightarrow> ''unknown''
     | Some s \<Rightarrow> if SLASH \<in> set s then drop (Suc (str_rfind s SLASH)) s else s)"

section \<open>The logger's state and operations\<close>

record logger =
  lg_ofs :: "nat option"
  lg_level :: level
  lg_path :: string
  lg_max :: nat
  lg_fs :: fs
  lg_cerr :: "string list"

definition complain :: "string \<Rightarrow> logger \<Rightarrow> logger" where
  "complain s L = L\<lparr>lg_cerr := lg_cerr L @ [s]\<rparr>"

definition quoted :: "string \<Rightarrow> string" where
  "quoted s = CHR 0x27 # s @ [CHR 0x27]"

text \<open>\<open>if (g_log_ofs.is_open()) g_log_ofs.close()\<close> and \<open>g_log_ofs.open(g_log_filepath, ios::app)\<close>.\<close>

definition close_stream :: "logger \<Rightarrow> logger" where
  "close_stream L = (if lg_ofs L \<noteq> None then L\<lparr>lg_ofs := None\<rparr> else L)"

definition open_stream :: "logger \<Rightarrow> logger" where
  "open_stream L = (case open_app (lg_fs L) (lg_path L) of (h, f) \<Rightarrow> L\<lparr>lg_ofs := h, lg_fs := f\<rparr>)"

definition move_log :: "string \<Rightarrow> logger \<Rightarrow> logger" where
  "move_log backup_name L =
     (case rename_file (lg_fs L) (lg_path L) backup_name of (r, f) \<Rightarrow>
        if r \<noteq> 0
        then complain (''Logger: failed to rotate log file from '' @ quoted (lg_path L) @
               '' to '' @ quoted backup_name) (L\<lparr>lg_fs := f\<rparr>)
        else L\<lparr>lg_fs := f\<rparr>)"

definition rotate_log_file :: "tm \<Rightarrow> logger \<Rightarrow> logger" where
  "rotate_log_file t L =
     (let backup_name = lg_path L @ ''.'' @ backup_stamp t;
          L1 = open_stream (move_log backup_name (close_stream L))
      in if lg_ofs L1 = None
         then complain (''Logger: failed to create new log file '' @ quoted (lg_path L)) L1 else L1)"

definition should_rotate_log :: "logger \<Rightarrow> bool" where
  "should_rotate_log L =
     (if lg_max L = 0 then False
      else (case stat_size (lg_fs L) (lg_path L) of Some n \<Rightarrow> lg_max L \<le> n | None \<Rightarrow> False))"

text \<open>\<open>stat(dir)\<close> succeeds on any entry of that name.\<close>

definition entry_exists :: "fs \<Rightarrow> string \<Rightarrow> bool" where
  "entry_exists f p \<longleftrightarrow> p \<in> set (fs_dirs f) \<or> fs_names f p \<noteq> None"

definition make_log_dir :: "logger \<Rightarrow> logger" where
  "make_log_dir L =
     (case dir_of (lg_path L) of None \<Rightarrow> L
      | Some d \<Rightarrow> if entry_exists (lg_fs L) d then L else L\<lparr>lg_fs := make_dir (lg_fs L) d\<rparr>)"

definition init :: "string \<Rightarrow> string \<Rightarrow> nat \<Rightarrow> logger \<Rightarrow> logger" where
  "init filepath lev max_size L =
     (let L1 = L\<lparr>lg_level := parse_level lev, lg_path := filepath, lg_max := max_size\<rparr>;
          L2 = open_stream (close_stream (make_log_dir L1))
      in if lg_ofs L2 = None
         then complain (''Logger: failed to open log file '' @ quoted filepath @ '', logging to stderr'') L2
         else L2)"

definition log_line :: "tm \<Rightarrow> level \<Rightarrow> string \<Rightarrow> string option \<Rightarrow> int \<Rightarrow> string" where
  "log_line t lvl msg file line =
     now_iso8601 t @ '' ['' @ level_name lvl @ ''] '' @ basename_of_path file @ '':'' @
     dec_of_int line @ '' '' @ msg @ [CHR 0x0A]"

text \<open>\<open>t1\<close> stamps the line, \<open>t2\<close> is read again if the file is rotated.\<close>

definition log :: "tm \<Rightarrow> tm \<Rightarrow> level \<Rightarrow> string \<Rightarrow> string option \<Rightarrow> int \<Rightarrow> logger \<Rightarrow> logger" where
  "log t1 t2 lvl msg file line L =
     (if severity_rank lvl < severity_rank (lg_level L) then L
      else
        (let out = log_line t1 lvl msg file line;
             L1 = (if should_rotate_log L then rotate_log_file t2 L else L)
         in case lg_ofs L1 of
              Some h \<Rightarrow> L1\<lparr>lg_fs := write_to (lg_fs L1) h out\<rparr>
            | None \<Rightarrow> L1\<lparr>lg_cerr := lg_cerr L1 @ [out]\<rparr>))"

section \<open>The stream invariant\<close>

text \<open>While the stream is open it writes the file that \<open>g_log_filepath\<close> names.\<close>

definition log_inv :: "logger \<Rightarrow> bool" where
  "log_inv L \<longleftrightarrow> fs_wf (lg_fs L) \<and>
     (\<forall>h. lg_ofs L = Some h \<longrightarrow> names_inode (lg_fs L) h (lg_path L))"

definition log_text :: "logger \<Rightarrow> string" where
  "log_text L = (case contents (lg_fs L) (lg_path L) of None \<Rightarrow> [] | Some d \<Rightarrow> d)"

lemma log_invI:
  "fs_wf (lg_fs L) \<Longrightarrow> (\<And>h. lg_ofs L = Some h \<Longrightarrow> names_inode (lg_fs L) h (lg_path L)) \<Longrightarrow> log_inv L"
  by (simp add: log_inv_def)

lemma log_inv_complain [simp]: "log_inv (complain s L) = log_inv L"
  by (simp add: log_inv_def complain_def)

lemma complain_simps [simp]:
  "lg_ofs (complain s L) = lg_ofs L" "lg_fs (complain s L) = lg_fs L"
  "lg_path (complain s L) = lg_path L" "lg_max (complain s L) = lg_max L"
  "lg_level (complain s L) = lg_level L"
  by (simp_all add: complain_def)

lemma rename_wf: "fs_wf f \<Longrightarrow> fs_wf (snd (rename_file f a b))"
  using rename_file_spec [of f a b] rename_file_fail [of f a b] by (cases "rename_file f a b") force

lemma close_stream_simps [simp]:
  "lg_ofs (close_stream L) = None" "lg_fs (close_stream L) = lg_fs L"
  "lg_path (close_stream L) = lg_path L" "lg_max (close_stream L) = lg_max L"
  "lg_level (close_stream L) = lg_level L"
  by (simp_all add: close_stream_def)

lemma move_log_simps [simp]:
  "lg_fs (move_log b L) = snd (rename_file (lg_fs L) (lg_path L) b)"
  "lg_path (move_log b L) = lg_path L" "lg_max (move_log b L) = lg_max L"
  "lg_level (move_log b L) = lg_level L"
  by (simp_all add: move_log_def split: prod.splits)

lemma open_stream_simps [simp]:
  "lg_ofs (open_stream L) = fst (open_app (lg_fs L) (lg_path L))"
  "lg_fs (open_stream L) = snd (open_app (lg_fs L) (lg_path L))"
  "lg_path (open_stream L) = lg_path L" "lg_max (open_stream L) = lg_max L"
  "lg_level (open_stream L) = lg_level L"
  by (simp_all add: open_stream_def split: prod.splits)

lemma open_stream_inv:
  assumes "fs_wf (lg_fs L)"
  shows "log_inv (open_stream L)"
proof -
  obtain h f where op: "open_app (lg_fs L) (lg_path L) = (h, f)" by fastforce
  show ?thesis
  proof (cases h)
    case None
    with assms op show ?thesis by (auto simp: log_inv_def dest: open_fail)
  next
    case (Some i)
    with assms op open_app_spec [of "lg_fs L" "lg_path L" i f] show ?thesis by (simp add: log_inv_def)
  qed
qed

lemma rotate_inv: "log_inv L \<Longrightarrow> log_inv (rotate_log_file t L)"
  by (simp add: rotate_log_file_def Let_def open_stream_inv rename_wf log_inv_def [of L])

lemma rotate_frame [frame_rules]:
  "lg_path (rotate_log_file t L) = lg_path L" "lg_max (rotate_log_file t L) = lg_max L"
  "lg_level (rotate_log_file t L) = lg_level L"
  by (simp_all add: rotate_log_file_def Let_def)

lemma rotate_spec:
  assumes wf: "fs_wf (lg_fs L)"
    and rn: "rename_file (lg_fs L) (lg_path L) bak = (0, f)"
    and op: "open_app f (lg_path L) = (Some h, g)"
    and bak: "bak = lg_path L @ ''.'' @ backup_stamp t"
  shows "lg_ofs (rotate_log_file t L) = Some h" and "lg_fs (rotate_log_file t L) = g"
    and "contents g = (contents (lg_fs L))(bak := contents (lg_fs L) (lg_path L), lg_path L \<mapsto> [])"
    and "fs_room g = fs_room (lg_fs L)"
proof -
  show "lg_ofs (rotate_log_file t L) = Some h" "lg_fs (rotate_log_file t L) = g"
    using rn op bak by (simp_all add: rotate_log_file_def Let_def)
  have ne: "bak \<noteq> lg_path L" using bak by simp
  from store.moved_and_reopened [OF wf rn op ne]
  show "contents g = (contents (lg_fs L))(bak := contents (lg_fs L) (lg_path L), lg_path L \<mapsto> [])"
    by simp
  have "fs_room f = fs_room (lg_fs L)" using rn by (auto simp: rename_file_def split: if_splits)
  then show "fs_room g = fs_room (lg_fs L)"
    using op by (auto simp: open_app_def create_file_def split: if_splits option.splits)
qed

lemma make_log_dir_simps [simp]:
  "fs_wf (lg_fs (make_log_dir L)) = fs_wf (lg_fs L)" "lg_path (make_log_dir L) = lg_path L"
  by (simp_all add: make_log_dir_def make_dir_def fs_wf_def split: option.splits)

lemma init_inv: "fs_wf (lg_fs L) \<Longrightarrow> log_inv (init p lev n L)"
  by (simp add: init_def Let_def open_stream_inv)

lemma write_inv:
  assumes "log_inv L" and "lg_ofs L = Some h"
  shows "log_inv (L\<lparr>lg_fs := write_to (lg_fs L) h out\<rparr>) \<and>
    contents (write_to (lg_fs L) h out) =
      (contents (lg_fs L))(lg_path L \<mapsto> log_text L @ take (fs_room (lg_fs L)) out)"
proof -
  have nm: "names_inode (lg_fs L) h (lg_path L)" and wf: "fs_wf (lg_fs L)"
    using assms by (auto simp: log_inv_def)
  then have "contents (lg_fs L) (lg_path L) = Some (log_text L)"
    by (simp add: log_text_def contents_def names_inode_def)
  from write_to_spec [OF wf nm this] assms(2) show ?thesis by (simp add: log_inv_def)
qed

lemma log_keeps_inv: "log_inv L \<Longrightarrow> log_inv (log t1 t2 lvl msg file line L)"
proof -
  assume inv: "log_inv L"
  define M where "M = (if should_rotate_log L then rotate_log_file t2 L else L)"
  have M: "log_inv M" using inv rotate_inv by (simp add: M_def)
  have "log_inv (M\<lparr>lg_cerr := c\<rparr>)" for c using M by (simp add: log_inv_def)
  then show ?thesis
    using inv M write_inv [OF M]
    by (auto simp: log_def M_def [symmetric] Let_def split: option.splits)
qed

lemma log_frame [frame_rules]:
  "lg_path (log t1 t2 lvl msg file line L) = lg_path L"
  "lg_max (log t1 t2 lvl msg file line L) = lg_max L"
  "lg_level (log t1 t2 lvl msg file line L) = lg_level L"
  by (simp_all add: log_def Let_def frame_rules split: option.splits)

section \<open>Runs of log calls\<close>

record log_rec =
  lr_time :: tm
  lr_rot :: tm
  lr_level :: level
  lr_msg :: string
  lr_file :: "string option"
  lr_line :: int

definition log1 :: "log_rec \<Rightarrow> logger \<Rightarrow> logger" where
  "log1 r = log (lr_time r) (lr_rot r) (lr_level r) (lr_msg r) (lr_file r) (lr_line r)"

definition line_of :: "log_rec \<Rightarrow> string" where
  "line_of r = log_line (lr_time r) (lr_level r) (lr_msg r) (lr_file r) (lr_line r)"

definition log_run :: "log_rec list \<Rightarrow> logger \<Rightarrow> logger" where
  "log_run rs L = fold log1 rs L"

lemma log1_inv: "log_inv L \<Longrightarrow> log_inv (log1 r L)"
  by (simp add: log1_def log_keeps_inv)

lemma log1_frame [frame_rules]:
  "lg_path (log1 r L) = lg_path L" "lg_max (log1 r L) = lg_max L" "lg_level (log1 r L) = lg_level L"
  by (simp_all add: log1_def log_frame)

lemma log_run_inv: "log_inv L \<Longrightarrow> log_inv (log_run rs L)"
  unfolding log_run_def by (induction rs arbitrary: L) (simp_all add: log1_def log_keeps_inv)

text \<open>One call when no rotation is due and the stream is open.\<close>

lemma log1_append:
  assumes "log_inv L" and "lg_ofs L \<noteq> None" and "\<not> should_rotate_log L"
    and "length (line_of r) \<le> fs_room (lg_fs L)"
  shows "log_text (log1 r L) = log_text L @ (if lg_level L \<le> lr_level r then line_of r else [])"
    and "lg_ofs (log1 r L) = lg_ofs L" and "fs_room (lg_fs (log1 r L)) = fs_room (lg_fs L)"
proof -
  obtain h where h: "lg_ofs L = Some h" using assms(2) by blast
  show "log_text (log1 r L) = log_text L @ (if lg_level L \<le> lr_level r then line_of r else [])"
    using write_inv [OF assms(1) h, of "line_of r"] assms(3,4) h
    by (auto simp: log1_def log_def line_of_def log_text_def less_eq_level_def)
  show "lg_ofs (log1 r L) = lg_ofs L"
    using assms(3) h by (simp add: log1_def log_def)
  show "fs_room (lg_fs (log1 r L)) = fs_room (lg_fs L)"
    using assms(3) h by (simp add: log1_def log_def write_to_def)
qed

section \<open>Rotation\<close>

text \<open>The file system lets the log be moved aside and reopened.\<close>

definition can_rotate :: "logger \<Rightarrow> bool" where
  "can_rotate L \<longleftrightarrow> (\<forall>b. fs_may_rename (lg_fs L) (lg_path L) b) \<and> can_open (lg_fs L) (lg_path L)"

lemma rename_perms:
  "fs_may_open (snd (rename_file f a b)) = fs_may_open f"
  "fs_may_rename (snd (rename_file f a b)) = fs_may_rename f"
  "fs_dirs (snd (rename_file f a b)) = fs_dirs f" "fs_room (snd (rename_file f a b)) = fs_room f"
  by (simp_all add: rename_file_def)

lemma open_app_perms:
  "fs_may_open (snd (open_app f p)) = fs_may_open f"
  "fs_may_rename (snd (open_app f p)) = fs_may_rename f"
  "fs_dirs (snd (open_app f p)) = fs_dirs f" "fs_room (snd (open_app f p)) = fs_room f"
  by (simp_all add: open_app_def create_file_def split: option.splits)

lemma can_rotate_rotate [simp]: "can_rotate (rotate_log_file t L) = can_rotate L"
  by (simp add: can_rotate_def rotate_log_file_def Let_def rename_perms open_app_perms
      can_open_def dir_ok_def split: option.splits)

lemma can_rotate_upd [simp]:
  "can_rotate (L\<lparr>lg_fs := write_to (lg_fs L) h out\<rparr>) = can_rotate L"
  "can_rotate (L\<lparr>lg_cerr := c\<rparr>) = can_rotate L"
  by (simp_all add: can_rotate_def write_to_def can_open_def dir_ok_def split: option.splits)

lemma can_rotate_log1: "can_rotate (log1 r L) = can_rotate L"
proof -
  define M where "M = (if should_rotate_log L then rotate_log_file (lr_rot r) L else L)"
  have "can_rotate M = can_rotate L" by (simp add: M_def)
  then show ?thesis
    by (simp add: log1_def log_def Let_def M_def [symmetric] split: option.splits)
qed

lemma open_app_Some: "can_open f p \<Longrightarrow> \<exists>h g. open_app f p = (Some h, g)"
  by (auto simp: open_app_def create_file_def split: option.splits)

text \<open>A due rotation of a well-kept log: moved to the backup, reopened empty.\<close>

lemma due_rotation:
  fixes t :: tm
  assumes inv: "log_inv L" and rot: "can_rotate L" and due: "should_rotate_log L"
  defines "M \<equiv> rotate_log_file t L"
  shows "log_inv M" and "lg_ofs M \<noteq> None" and "log_text M = []" and "lg_path M = lg_path L"
    and "contents (lg_fs M) = (contents (lg_fs L))
          (lg_path L @ ''.'' @ backup_stamp t \<mapsto> log_text L, lg_path L \<mapsto> [])"
    and "fs_room (lg_fs M) = fs_room (lg_fs L)"
proof -
  let ?bak = "lg_path L @ ''.'' @ backup_stamp t"
  have wf: "fs_wf (lg_fs L)" using inv by (simp add: log_inv_def)
  obtain d where d: "contents (lg_fs L) (lg_path L) = Some d"
    using due by (auto simp: should_rotate_log_def stat_size_def split: if_splits option.splits)
  then have d': "log_text L = d" by (simp add: log_text_def)
  have nm: "fs_names (lg_fs L) (lg_path L) \<noteq> None" using d by (auto simp: contents_def)
  obtain f where rn: "rename_file (lg_fs L) (lg_path L) ?bak = (0, f)"
    using rot nm by (simp add: rename_file_def can_rotate_def)
  have f: "f = snd (rename_file (lg_fs L) (lg_path L) ?bak)" using rn by simp
  have "can_open f (lg_path L)"
    using rot unfolding f by (simp add: can_rotate_def rename_perms can_open_def dir_ok_def split: option.splits)
  then obtain h g where op: "open_app f (lg_path L) = (Some h, g)" using open_app_Some by blast
  note sp = rotate_spec [OF wf rn op refl]
  show "log_inv M" unfolding M_def by (rule rotate_inv [OF inv])
  show "lg_ofs M \<noteq> None" using sp(1) by (simp add: M_def)
  show path: "lg_path M = lg_path L" by (simp add: M_def rotate_frame)
  show c: "contents (lg_fs M) = (contents (lg_fs L)) (?bak \<mapsto> log_text L, lg_path L \<mapsto> [])"
    using sp(2,3) by (simp add: M_def d d')
  show "log_text M = []" by (simp add: log_text_def path c)
  show "fs_room (lg_fs M) = fs_room (lg_fs L)" using sp(2,4) by (simp add: M_def)
qed

lemma log_text_rotated:
  assumes "log_inv L" and "can_rotate L" and "should_rotate_log L" and "lg_level L \<le> lr_level r"
  shows "log_text (log1 r L) = take (fs_room (lg_fs L)) (line_of r)" and "lg_ofs (log1 r L) \<noteq> None"
proof -
  let ?M = "rotate_log_file (lr_rot r) L"
  note M = due_rotation [OF assms(1-3), of "lr_rot r"]
  obtain h where h: "lg_ofs ?M = Some h" using M(2) by blast
  have lv: "\<not> severity_rank (lr_level r) < severity_rank (lg_level L)"
    using assms(4) by (simp add: less_eq_level_def)
  show "log_text (log1 r L) = take (fs_room (lg_fs L)) (line_of r)" "lg_ofs (log1 r L) \<noteq> None"
    using write_inv [OF M(1) h, of "line_of r"] M(3,4,6) assms(3) lv h
    by (simp_all add: log1_def log_def line_of_def Let_def log_text_def [of "_\<lparr>lg_fs := _\<rparr>"])
qed

lemma log1_stays_open:
  assumes "log_inv L" and "can_rotate L" and "lg_ofs L \<noteq> None"
  shows "lg_ofs (log1 r L) \<noteq> None"
proof (cases "should_rotate_log L \<and> lg_level L \<le> lr_level r")
  case True
  with log_text_rotated [OF assms(1,2)] show ?thesis by simp
next
  case False
  with assms(3) show ?thesis
    by (auto simp: log1_def log_def less_eq_level_def not_le split: option.splits)
qed

text \<open>The size bound of one call: below the limit plus the longest line, and kept by every call.\<close>

lemma log1_size:
  assumes inv: "log_inv L" and rot: "can_rotate L" and op: "lg_ofs L \<noteq> None"
    and max: "0 < lg_max L" and line: "length (line_of r) \<le> B"
    and old: "length (log_text L) < lg_max L + B"
  shows "length (log_text (log1 r L)) < lg_max L + B"
proof (cases "lg_level L \<le> lr_level r")
  case False
  then have "log1 r L = L" by (simp add: log1_def log_def less_eq_level_def)
  with old show ?thesis by simp
next
  case lv: True
  show ?thesis
  proof (cases "should_rotate_log L")
    case True
    with log_text_rotated(1) [OF inv rot _ lv] line max show ?thesis by simp
  next
    case False
    obtain h where h: "lg_ofs L = Some h" using op by blast
    then have nm: "names_inode (lg_fs L) h (lg_path L)" using inv by (simp add: log_inv_def)
    have small: "length (log_text L) < lg_max L"
      using False max nm
      by (simp add: should_rotate_log_def stat_size_def log_text_def contents_def names_inode_def)
    have "log_text (log1 r L) = log_text L @ take (fs_room (lg_fs L)) (line_of r)"
      using write_inv [OF inv h, of "line_of r"] False h lv
      by (simp add: log1_def log_def line_of_def log_text_def [of "_\<lparr>lg_fs := _\<rparr>"] less_eq_level_def)
    with small line show ?thesis by simp
  qed
qed

lemma line_due_rotation:
  assumes inv: "log_inv L" and rot: "can_rotate L" and due: "should_rotate_log L"
    and lv: "lg_level L \<le> lr_level r"
  shows "contents (lg_fs (log1 r L)) = (contents (lg_fs L))
     (lg_path L @ ''.'' @ backup_stamp (lr_rot r) \<mapsto> log_text L,
      lg_path L \<mapsto> take (fs_room (lg_fs L)) (line_of r))"
proof -
  let ?M = "rotate_log_file (lr_rot r) L"
  note M = due_rotation [OF inv rot due, of "lr_rot r"]
  obtain h where h: "lg_ofs ?M = Some h" using M(2) by blast
  have "lg_fs (log1 r L) = write_to (lg_fs ?M) h (line_of r)"
    using due lv h by (simp add: log1_def log_def line_of_def Let_def less_eq_level_def)
  with write_inv [OF M(1) h, of "line_of r"] M(3,4,5,6) show ?thesis by simp
qed

section \<open>Properties of the logger\<close>

text \<open>A file system with no files that permits everything, and loggers on it.\<close>

definition open_fs :: fs where
  "open_fs = \<lparr>fs_names = (\<lambda>_. None), fs_data = (\<lambda>_. []), fs_next = 0, fs_dirs = [],
     fs_may_open = (\<lambda>_. True), fs_may_rename = (\<lambda>_ _. True), fs_may_mkdir = (\<lambda>_. True),
     fs_room = 4096\<rparr>"

definition fresh_logger :: "nat \<Rightarrow> logger" where
  "fresh_logger n = init ''/l'' ''warn'' n
     \<lparr>lg_ofs = None, lg_level = INFO, lg_path = [], lg_max = 100 * 1024 * 1024, lg_fs = open_fs,
      lg_cerr = []\<rparr>"

definition sample_tm :: tm where
  "sample_tm = \<lparr>tm_year = 2025, tm_mon = 8, tm_mday = 15, tm_hour = 9, tm_min = 5, tm_sec = 7\<rparr>"

definition sample_rec :: "level \<Rightarrow> string \<Rightarrow> log_rec" where
  "sample_rec l m = \<lparr>lr_time = sample_tm, lr_rot = sample_tm, lr_level = l, lr_msg = m,
     lr_file = Some ''src/a.cpp'', lr_line = 7\<rparr>"

lemma open_fs_wf [simp]: "fs_wf open_fs"
  by (simp add: fs_wf_def open_fs_def)

lemma dir_of_l: "dir_of ''/l'' = None"
  by (simp add: dir_of_def str_rfind_def)

lemma fresh_logger_simps:
  "log_inv (fresh_logger n)" "lg_ofs (fresh_logger n) = Some 0" "lg_level (fresh_logger n) = WARN"
  "lg_max (fresh_logger n) = n" "lg_path (fresh_logger n) = ''/l''" "can_rotate (fresh_logger n)"
  "fs_room (lg_fs (fresh_logger n)) = 4096" "log_text (fresh_logger n) = []"
  by (simp add: fresh_logger_def init_inv)
     (simp_all add: fresh_logger_def init_def Let_def make_log_dir_def dir_of_l open_app_def
      can_open_def dir_ok_def open_fs_def create_file_def parse_level_def complain_def can_rotate_def
      log_text_def contents_def)

lemma sample_line: "line_of (sample_rec WARN m) =
    ''2025-08-15T09:05:07 [WARN] a.cpp:7 '' @ m @ [CHR 0x0A]"
  by (simp add: line_of_def sample_rec_def log_line_def now_iso8601_def sample_tm_def pad2_def
      dec_of_nat.simps digit_char_def basename_of_path_def str_rfind_def dec_of_int_def)

lemma sample_rec_simps: "lr_level (sample_rec l m) = l" "lr_rot (sample_rec l m) = sample_tm"
  by (simp_all add: sample_rec_def)

text \<open>While no rotation is due, a run of log calls appends to the log file exactly the lines
  whose severity reaches the configured threshold, in order, and nothing else.\<close>

lemma log_run_appends:
  assumes "log_inv L" and "lg_ofs L \<noteq> None" and "lg_max L = 0"
    and "\<forall>r \<in> set rs. length (line_of r) \<le> fs_room (lg_fs L)"
  shows "log_text (log_run rs L) =
    log_text L @ concat (map line_of (filter (\<lambda>r. lg_level L \<le> lr_level r) rs))"
  using assms
proof (induction rs arbitrary: L)
  case Nil
  then show ?case by (simp add: log_run_def)
next
  case (Cons r rs)
  have no: "\<not> should_rotate_log L" using Cons.prems(3) by (simp add: should_rotate_log_def)
  have len: "length (line_of r) \<le> fs_room (lg_fs L)" using Cons.prems(4) by simp
  note one = log1_append [OF Cons.prems(1,2) no len]
  have "log_text (log_run rs (log1 r L)) = log_text (log1 r L) @
      concat (map line_of (filter (\<lambda>r'. lg_level (log1 r L) \<le> lr_level r') rs))"
    using Cons.prems one by (intro Cons.IH) (auto simp: log1_inv log1_frame)
  then show ?case
    using one(1) by (simp add: log_run_def log1_frame)
qed

text \<open>C32: With a size limit and a file system that permits rotation, every run of log calls keeps
  the log file shorter than the limit plus its longest line, and keeps the stream open on it.\<close>

theorem log_run_size_bound:
  assumes "log_inv L" and "can_rotate L" and "lg_ofs L \<noteq> None" and "0 < lg_max L"
    and "\<forall>r \<in> set rs. length (line_of r) \<le> B" and "length (log_text L) < lg_max L + B"
  shows "length (log_text (log_run rs L)) < lg_max L + B \<and> lg_ofs (log_run rs L) \<noteq> None"
  using assms
proof (induction rs arbitrary: L)
  case Nil
  then show ?case by (simp add: log_run_def)
next
  case (Cons r rs)
  have len: "length (line_of r) \<le> B" using Cons.prems(5) by simp
  have fr: "lg_max (log1 r L) = lg_max L" by (simp add: log1_frame)
  have "length (log_text (log1 r L)) < lg_max L + B"
    by (rule log1_size [OF Cons.prems(1-4) len Cons.prems(6)])
  then have "length (log_text (log_run rs (log1 r L))) < lg_max (log1 r L) + B \<and>
      lg_ofs (log_run rs (log1 r L)) \<noteq> None"
    using Cons.prems fr log1_stays_open [OF Cons.prems(1-3)]
    by (intro Cons.IH) (auto simp: can_rotate_log1 log1_inv)
  then show ?case by (simp add: log_run_def fr)
qed

theorem log_run_size_bound_witness:
  "length (log_text (log_run [sample_rec WARN ''a'', sample_rec WARN ''b'', sample_rec WARN ''c'']
     (fresh_logger 10))) < 10 + 37"
  using log_run_size_bound [of "fresh_logger 10"
    "[sample_rec WARN ''a'', sample_rec WARN ''b'', sample_rec WARN ''c'']" 37]
  by (simp add: fresh_logger_simps sample_line)

text \<open>When a log call finds the file at its limit, the old contents are kept whole under the
  time-stamped backup name, the new file holds just the new line, and no other file changes.\<close>

lemma rotation_keeps_old_log:
  assumes "log_inv L" and "can_rotate L" and "should_rotate_log L" and "lg_level L \<le> lr_level r"
    and "length (line_of r) \<le> fs_room (lg_fs L)"
  shows "contents (lg_fs (log1 r L)) = (contents (lg_fs L))
     (lg_path L @ ''.'' @ backup_stamp (lr_rot r) \<mapsto> log_text L, lg_path L \<mapsto> line_of r)"
  using line_due_rotation [OF assms(1-4)] assms(5) by simp

text \<open>C33: The backup name has a resolution of one second: a second rotation within the same second
  replaces the first backup, so the log that was rotated first is gone from that name.\<close>

theorem same_second_rotation_loses_log:
  assumes "log_inv L" and "can_rotate L" and "should_rotate_log L" and "lg_level L \<le> lr_level r"
    and "should_rotate_log (log1 r L)" and "lg_level L \<le> lr_level s" and "lr_rot s = lr_rot r"
  shows "contents (lg_fs (log1 s (log1 r L))) (lg_path L @ ''.'' @ backup_stamp (lr_rot r)) =
    Some (take (fs_room (lg_fs L)) (line_of r))"
proof -
  have "log_inv (log1 r L)" "can_rotate (log1 r L)" "lg_level (log1 r L) = lg_level L"
    "lg_path (log1 r L) = lg_path L"
    using assms(1,2) by (simp_all add: log1_inv log1_frame can_rotate_log1)
  then show ?thesis
    using line_due_rotation [of "log1 r L" s] assms(5,6,7) log_text_rotated(1) [OF assms(1-4)] by simp
qed

theorem same_second_rotation_loses_log_witness:
  "\<exists>L. contents (lg_fs (log1 (sample_rec WARN ''second'') (log1 (sample_rec WARN ''first'') L)))
     (''/l.'' @ backup_stamp sample_tm) = Some (line_of (sample_rec WARN ''first''))"
proof -
  let ?L = "log1 (sample_rec WARN ''lost'') (fresh_logger 10)"
  have no: "\<not> should_rotate_log (fresh_logger 10)"
    using fresh_logger_simps [of 10]
    by (auto simp: should_rotate_log_def stat_size_def log_text_def split: option.splits)
  note st = log1_append [of "fresh_logger 10" "sample_rec WARN ''lost''"]
  have t: "log_text ?L = line_of (sample_rec WARN ''lost'')"
    using st no by (simp add: fresh_logger_simps sample_line sample_rec_simps)
  have room: "fs_room (lg_fs ?L) = 4096"
    using st no by (simp add: fresh_logger_simps sample_line)
  have fr: "lg_path ?L = ''/l''" "lg_max ?L = 10" "lg_level ?L = WARN"
    by (simp_all add: log1_frame fresh_logger_simps)
  have inv: "log_inv ?L" by (simp add: log1_inv fresh_logger_simps)
  have rot: "can_rotate ?L" by (simp add: can_rotate_log1 fresh_logger_simps)
  have due: "should_rotate_log ?L"
    using t fr by (auto simp: should_rotate_log_def stat_size_def log_text_def sample_line
        split: option.splits)
  let ?M = "log1 (sample_rec WARN ''first'') ?L"
  have tM: "log_text ?M = line_of (sample_rec WARN ''first'')"
    using log_text_rotated(1) [OF inv rot due] room fr by (simp add: sample_line sample_rec_simps)
  have "lg_max ?M = 10" "lg_path ?M = ''/l''" using fr by (simp_all add: log1_frame)
  then have due2: "should_rotate_log ?M"
    using tM by (auto simp: should_rotate_log_def stat_size_def log_text_def sample_line
        split: option.splits)
  show ?thesis
    using same_second_rotation_loses_log [OF inv rot due _ due2, of "sample_rec WARN ''second''"] room fr
    by (intro exI [of _ ?L]) (simp add: sample_line sample_rec_simps)
qed

text \<open>Initialising the logger makes the threshold accept a level exactly as the configured name
  says, whatever the spelling, and an unknown name means info.\<close>

lemma init_threshold:
  "lg_level (init p lev n L) \<le> l \<longleftrightarrow>
     (if lev \<in> {''warn'', ''WARN'', ''Warn''} then l \<in> {WARN, ERROR}
      else if lev \<in> {''error'', ''ERROR'', ''Error''} then l = ERROR
      else if lev \<in> {''debug'', ''DEBUG'', ''Debug''} then True
      else l \<in> {INFO, WARN, ERROR})"
proof -
  have "lg_level (make_log_dir M) = lg_level M" for M :: logger
    by (simp add: make_log_dir_def split: option.splits)
  then have "lg_level (init p lev n L) = parse_level lev"
    by (simp add: init_def Let_def)
  then show ?thesis
    by (cases l) (simp_all add: parse_level_def less_eq_level_def)
qed

end
