(* ===== verification/Effects.thy ===== *)
theory Effects
  imports Event Logger
begin

text \<open>
  What the user-space code does to the outside, as values: a call of one of the \<open>LOG_\<close> macros, a
  line written to standard output or standard error, an HTTP request to the configured service, the
  initialisation of the logger, the start of the thread of the HTTP server.
  A function that only computes and logs returns its value with the list of its effects, in
  order; \<open>log_record\<close> is the call of \<open>Logger::log\<close> such an effect stands for, with the source
  file and line the macro adds.
\<close>

datatype effect =
    Log level string
  | Cout string
  | Cerr string
  | Http_post string string
  | Log_init string string nat
  | Start_server

type_synonym 'a logged = "'a \<times> effect list"

definition log_record :: "tm \<Rightarrow> tm \<Rightarrow> string \<Rightarrow> int \<Rightarrow> effect \<Rightarrow> log_rec option" where
  "log_record t1 t2 file line x = (case x of
       Log l m \<Rightarrow> Some \<lparr>lr_time = t1, lr_rot = t2, lr_level = l, lr_msg = m, lr_file = Some file,
         lr_line = line\<rparr>
     | _ \<Rightarrow> None)"

text \<open>What a list of effects does to the logger, all at the times \<open>t1\<close> and \<open>t2\<close> and from one place.\<close>

definition apply_effect :: "tm \<Rightarrow> tm \<Rightarrow> string \<Rightarrow> int \<Rightarrow> effect \<Rightarrow> logger \<Rightarrow> logger" where
  "apply_effect t1 t2 file line x L = (case x of
       Log l m \<Rightarrow> log t1 t2 l m (Some file) line L
     | Log_init path lev max_size \<Rightarrow> init path lev max_size L
     | _ \<Rightarrow> L)"

definition is_log :: "effect \<Rightarrow> bool" where
  "is_log x \<longleftrightarrow> (case x of Log _ _ \<Rightarrow> True | _ \<Rightarrow> False)"

text \<open>The log lines a threshold lets through.\<close>

definition shown :: "level \<Rightarrow> effect \<Rightarrow> bool" where
  "shown thr x \<longleftrightarrow> (case x of Log l _ \<Rightarrow> thr \<le> l | _ \<Rightarrow> False)"

lemma is_log_simps [simp]:
  "is_log (Log l m)" "\<not> is_log (Cout s)" "\<not> is_log (Cerr s)" "\<not> is_log (Http_post u b)"
  "\<not> is_log (Log_init f v n)" "\<not> is_log Start_server"
  by (simp_all add: is_log_def)

end
