(* ===== verification/Paths.thy ===== *)
theory Paths
  imports Effects
begin

text \<open>
  How paths are rebuilt and measured: \<open>get_full_path\<close>, which exists twice, in \<open>PostData\<close> and in
  \<open>PrometheusExporter\<close>, \<open>get_dir_level\<close> and \<open>is_valid_filename\<close>. The locale \<open>path_rebuilder\<close>
  states what a client may assume of either copy of \<open>get_full_path\<close>; both are interpretations.
\<close>

section \<open>Rebuilding a path\<close>

text \<open>The loop over \<open>parts\<close>: empty parts and a lone slash are skipped.\<close>

fun join_parts :: "string \<Rightarrow> string list \<Rightarrow> string" where
  "join_parts fullpath [] = fullpath"
| "join_parts fullpath (part # ps) =
     (if part = [] \<or> part = [SLASH] then join_parts fullpath ps
      else join_parts ((if fullpath \<noteq> [] then fullpath @ [SLASH] else fullpath) @ part) ps)"

definition event_parts :: "event \<Rightarrow> string list" where
  "event_parts e = [cstr (ev_dir4 e), cstr (ev_dir3 e), cstr (ev_dir2 e), cstr (ev_dir1 e),
     cstr (ev_filename e)]"

definition add_root :: "string \<Rightarrow> string" where
  "add_root p = (if p \<noteq> [] \<and> hd p \<noteq> SLASH then SLASH # p else p)"

text \<open>\<open>PostData::get_full_path\<close>.\<close>

definition get_full_path :: "event \<Rightarrow> string logged" where
  "get_full_path e =
     (let fullpath = add_root (join_parts [] (event_parts e))
      in (fullpath, [Log INFO (''Constructed full path: '' @ fullpath)]))"

text \<open>\<open>PrometheusExporter::get_full_path\<close>.\<close>

definition exporter_full_path :: "event \<Rightarrow> string logged" where
  "exporter_full_path e =
     (let fullpath = add_root (join_parts [] (event_parts e))
      in (fullpath, [Log INFO (''Constructing full path for event with filename: '' @
            cstr (ev_filename e)), Log INFO (''Constructed full path: '' @ fullpath)]))"

section \<open>What the loop computes\<close>

definition kept :: "string \<Rightarrow> bool" where
  "kept p \<longleftrightarrow> p \<noteq> [] \<and> p \<noteq> [SLASH]"

definition path_of_parts :: "string list \<Rightarrow> string" where
  "path_of_parts ps = add_root (join_with SLASH (filter kept ps))"

lemma join_parts_acc:
  "acc \<noteq> [] \<Longrightarrow> join_parts acc ps = join_with SLASH (acc # filter kept ps)"
proof (induction ps arbitrary: acc)
  case Nil
  then show ?case by simp
next
  case (Cons p ps)
  show ?case
  proof (cases "kept p")
    case True
    then have "join_parts acc (p # ps) = join_with SLASH ((acc @ SLASH # p) # filter kept ps)"
      using Cons by (simp add: kept_def [of p])
    also have "\<dots> = join_with SLASH (acc # p # filter kept ps)"
      by (cases "filter kept ps") auto
    finally show ?thesis using True by simp
  next
    case False
    then show ?thesis using Cons by (auto simp: kept_def [of p])
  qed
qed

lemma join_parts_eq: "join_parts [] ps = join_with SLASH (filter kept ps)"
proof (induction ps)
  case Nil
  then show ?case by simp
next
  case (Cons p ps)
  then show ?case by (auto simp: kept_def [of p] join_parts_acc)
qed

lemma add_root_absolute: "add_root p \<noteq> [] \<Longrightarrow> hd (add_root p) = SLASH"
  by (simp add: add_root_def split: if_splits)

lemma add_root_Nil [simp]: "add_root p = [] \<longleftrightarrow> p = []"
  by (simp add: add_root_def)

definition clean :: "string \<Rightarrow> bool" where
  "clean p \<longleftrightarrow> p \<noteq> [] \<and> SLASH \<notin> set p"

lemma clean_kept: "clean p \<Longrightarrow> kept p"
  by (auto simp: clean_def kept_def)

lemma path_of_clean:
  assumes "\<forall>p \<in> set ps. clean p" and "ps \<noteq> []"
  shows "add_root (join_with SLASH ps) = SLASH # join_with SLASH ps"
    and "split_at SLASH (add_root (join_with SLASH ps)) = [] # ps"
proof -
  have h: "hd ps \<noteq> []" "SLASH \<notin> set (hd ps)" using assms by (cases ps; simp add: clean_def)+
  then have "hd (join_with SLASH ps) \<noteq> SLASH"
    using hd_join_with [OF assms(2) h(1)] by (metis hd_in_set)
  moreover have "join_with SLASH ps \<noteq> []" using assms by (auto simp: join_with_eq_Nil clean_def)
  ultimately show 1: "add_root (join_with SLASH ps) = SLASH # join_with SLASH ps"
    by (simp add: add_root_def)
  show "split_at SLASH (add_root (join_with SLASH ps)) = [] # ps"
    using assms by (simp add: 1 split_at_join clean_def)
qed

section \<open>The interface of a path rebuilder\<close>

locale path_rebuilder =
  fixes rebuild :: "event \<Rightarrow> string logged"
  assumes rebuild_path: "fst (rebuild e) = path_of_parts (event_parts e)"
begin

lemma absolute: "fst (rebuild e) \<noteq> [] \<Longrightarrow> hd (fst (rebuild e)) = SLASH"
  by (simp add: rebuild_path path_of_parts_def add_root_absolute)

lemma empty_iff: "fst (rebuild e) = [] \<longleftrightarrow> (\<forall>p \<in> set (event_parts e). \<not> kept p)"
  by (auto simp: rebuild_path path_of_parts_def join_with_eq_Nil filter_empty_conv filter_eq_Cons_iff
      kept_def)

text \<open>Splitting the rebuilt path at its slashes gives the parts back.\<close>

lemma split_back:
  assumes "\<forall>p \<in> set (event_parts e). kept p \<longrightarrow> clean p" and "fst (rebuild e) \<noteq> []"
  shows "split_at SLASH (fst (rebuild e)) = [] # filter kept (event_parts e)"
proof -
  have "filter kept (event_parts e) \<noteq> []" using assms(2) by (auto simp: empty_iff filter_empty_conv)
  moreover have "\<forall>p \<in> set (filter kept (event_parts e)). clean p" using assms(1) by auto
  ultimately show ?thesis
    using path_of_clean(2) [of "filter kept (event_parts e)"]
    unfolding rebuild_path path_of_parts_def by blast
qed

end

interpretation post_path: path_rebuilder get_full_path
  by unfold_locales (simp add: get_full_path_def Let_def path_of_parts_def join_parts_eq)

interpretation exporter_path: path_rebuilder exporter_full_path
  by unfold_locales (simp add: exporter_full_path_def Let_def path_of_parts_def join_parts_eq)

section \<open>Other tests on paths\<close>

text \<open>\<open>PostData::get_dir_level\<close>: -1 for a path that is not absolute.\<close>

definition get_dir_level :: "string \<Rightarrow> int logged" where
  "get_dir_level path =
     ((if path = [] \<or> hd path \<noteq> SLASH then -1
       else
         (let tmp_path = (if last path = SLASH then take (length path - 1) path else path)
          in int (count_list tmp_path SLASH))),
      [Log INFO (''Getting dir level number for path: '' @ path)])"

text \<open>\<open>PostData::is_valid_filename\<close>.\<close>

definition is_valid_filename :: "string \<Rightarrow> bool" where
  "is_valid_filename filename =
     (if filename = [] \<or> hd filename = CHR ''.'' then False else True)"

lemma dir_level_clean:
  assumes "\<forall>p \<in> set ps. clean p" and "ps \<noteq> []"
  shows "fst (get_dir_level (SLASH # join_with SLASH ps)) = int (length ps)"
    and "fst (get_dir_level (SLASH # join_with SLASH ps @ [SLASH])) = int (length ps)"
proof -
  have ne: "join_with SLASH ps \<noteq> []" using assms by (auto simp: join_with_eq_Nil clean_def)
  have "SLASH \<notin> set (last ps)" "last ps \<noteq> []"
    using assms by (auto simp: clean_def dest: last_in_set)
  moreover have "last (join_with SLASH ps) = last (last ps)"
    using assms
  proof (induction SLASH ps rule: join_with.induct)
    case (3 x y zs)
    then show ?case by (cases "join_with SLASH (y # zs)") (auto simp: join_with_eq_Nil clean_def)
  qed auto
  ultimately have "last (join_with SLASH ps) \<noteq> SLASH" using last_in_set by fastforce
  moreover have "count_list (join_with SLASH ps) SLASH = length ps - 1"
    using assms by (intro count_join_with) (auto simp: clean_def)
  ultimately show "fst (get_dir_level (SLASH # join_with SLASH ps)) = int (length ps)"
    and "fst (get_dir_level (SLASH # join_with SLASH ps @ [SLASH])) = int (length ps)"
    using assms(2) ne by (simp_all add: get_dir_level_def)
qed

section \<open>Properties\<close>

text \<open>A sample event for \<open>/etc/hosts\<close>.\<close>

definition hosts_event :: event where
  "hosts_event = zero_event\<lparr>ev_pid := 100, ev_cmd := to_buf TASK_COMM_LEN ''bash'',
     ev_dir1 := to_buf MAX_DIRNAME_LEN ''etc'', ev_filename := to_buf MAX_FILENAME_LEN ''hosts'',
     ev_flag := flag_code SYS_write\<rparr>"

lemma cstr_lit [simp]:
  "cstr (to_buf TASK_COMM_LEN ''bash'') = ''bash''"
  "cstr (to_buf MAX_DIRNAME_LEN ''etc'') = ''etc''"
  "cstr (to_buf MAX_FILENAME_LEN ''hosts'') = ''hosts''"
  by (simp_all add: cstr_to_buf size_consts) (simp_all add: cstr_def)

lemma hosts_event_parts: "event_parts hosts_event = [[], [], [], ''etc'', ''hosts'']"
  by (simp add: event_parts_def hosts_event_def zero_event_def)

lemma hosts_event_path: "fst (get_full_path hosts_event) = ''/etc/hosts''"
  by (simp add: post_path.rebuild_path path_of_parts_def hosts_event_parts kept_def add_root_def)

text \<open>The two copies of \<open>get_full_path\<close> compute the same path for every event, so the metric
  label and the path that is matched against the configuration agree.\<close>

lemma full_path_copies_agree: "fst (exporter_full_path e) = fst (get_full_path e)"
  by (simp add: post_path.rebuild_path exporter_path.rebuild_path)

text \<open>A rebuilt path is absolute, and splitting it at its slashes gives back the directory
  names and the file name of the event, outermost directory first, with the empty slots and a root
  slot left out; so two events with the same path name the same file.\<close>

lemma full_path_splits_back:
  assumes "\<forall>p \<in> set (event_parts e). kept p \<longrightarrow> clean p" and "fst (get_full_path e) \<noteq> []"
  shows "hd (fst (get_full_path e)) = SLASH \<and>
    split_at SLASH (fst (get_full_path e)) = [] # filter kept (event_parts e)"
  using post_path.absolute [OF assms(2)] post_path.split_back [OF assms] by simp

text \<open>The level that \<open>load_config\<close> checks against \<open>max_dir_level\<close> is, for a path the tracer
  rebuilds from clean names, the number of its components, never more than \<open>MAX_DEPTH + 1\<close>; a
  configured path with more levels can therefore never be matched.\<close>

lemma full_path_level:
  assumes "\<forall>p \<in> set (event_parts e). kept p \<longrightarrow> clean p" and "fst (get_full_path e) \<noteq> []"
  shows "fst (get_dir_level (fst (get_full_path e))) = int (length (filter kept (event_parts e))) \<and>
    fst (get_dir_level (fst (get_full_path e))) \<le> int (MAX_DEPTH + 1)"
proof -
  let ?ps = "filter kept (event_parts e)"
  have ne: "?ps \<noteq> []" using assms(2) post_path.empty_iff by (auto simp: filter_empty_conv)
  have cl: "\<forall>p \<in> set ?ps. clean p" using assms(1) by auto
  have "fst (get_full_path e) = SLASH # join_with SLASH ?ps"
    unfolding post_path.rebuild_path path_of_parts_def using path_of_clean(1) [OF cl ne] .
  then have "fst (get_dir_level (fst (get_full_path e))) = int (length ?ps)"
    using dir_level_clean(1) [OF cl ne] by simp
  moreover have "length ?ps \<le> length (event_parts e)" by (rule length_filter_le)
  ultimately show ?thesis by (simp add: event_parts_def MAX_DEPTH_def)
qed

end
