(* ===== verification/Exporter.thy ===== *)
theory Exporter
  imports Paths
begin

text \<open>
  The Prometheus exporter, \<open>src/exporter.cpp\<close>: the access counter, the one gauge per process with
  its cache and time stamps, and the thread that removes what has not been seen for
  \<open>cache_timeout_seconds\<close>. The metric family belongs to prometheus-cpp; what it does to the
  registered series is a parameter, with the documented behaviour as the hypothesis \<open>prom_ok\<close>.
  Both \<open>set_metrics\<close> and one round of the cleaning thread run under \<open>gauge_cache_mutex\<close>, so each
  is one step here.
\<close>

section \<open>The metric family, a parameter\<close>

type_synonym labels = "(string \<times> string) list"

text \<open>The series a family exports: each gauge, by the pointer to it, with its labels and value.\<close>

type_synonym series = "(nat \<times> labels \<times> int) list"

record prom_lib =
  fam_add :: "series \<Rightarrow> labels \<Rightarrow> nat \<times> series"
  fam_remove :: "series \<Rightarrow> nat \<Rightarrow> series"
  gauge_set :: "series \<Rightarrow> nat \<Rightarrow> int \<Rightarrow> series"

text \<open>
  \<open>Family::Add\<close> returns the series that already has these labels, or else a new one, starting at
  zero; \<open>Family::Remove\<close> unregisters a series and does nothing otherwise; \<open>Gauge::Set\<close> sets its value.
\<close>

definition prom_ok :: "prom_lib \<Rightarrow> bool" where
  "prom_ok P \<longleftrightarrow>
     (\<forall>S l g S'. fam_add P S l = (g, S') \<longrightarrow>
        (\<exists>v. map_of S g = Some (l, v) \<and> S' = S) \<or>
        (map_of S g = None \<and> (\<forall>h v. map_of S h \<noteq> Some (l, v)) \<and>
         map_of S' = (map_of S)(g \<mapsto> (l, 0)))) \<and>
     (\<forall>S g. map_of (fam_remove P S g) = (map_of S)(g := None)) \<and>
     (\<forall>S g l v x. map_of S g = Some (l, v) \<longrightarrow>
        map_of (gauge_set P S g x) = (map_of S)(g \<mapsto> (l, x)))"

text \<open>A library that keeps its series in a list, to evaluate the model with.\<close>

definition list_prom :: prom_lib where
  "list_prom = \<lparr>
     fam_add = (\<lambda>S l. case find (\<lambda>(g, l', v). l' = l \<and> map_of S g = Some (l', v)) S of
         Some (g, x) \<Rightarrow> (g, S)
       | None \<Rightarrow> let g = Suc (foldr max (map fst S) 0) in (g, (g, l, 0) # S)),
     fam_remove = (\<lambda>S g. om_del g S),
     gauge_set = (\<lambda>S g x. map (\<lambda>(h, l, v). if h = g then (h, l, x) else (h, l, v)) S)\<rparr>"

lemma fresh_gauge: "map_of S (Suc (foldr max (map fst S) 0)) = None"
proof -
  have "g \<in> fst ` set S \<Longrightarrow> g \<le> foldr max (map fst S) (0::nat)" for g
    by (induction S) (auto intro: max.coboundedI2)
  from this [of "Suc (foldr max (map fst S) 0)"] show ?thesis by (auto simp: map_of_eq_None_iff)
qed

lemma map_of_set_value:
  "map_of S g = Some (l, v) \<Longrightarrow>
   map_of (map (\<lambda>(h, l, v). if h = g then (h, l, x) else (h, l, v)) S) = (map_of S)(g \<mapsto> (l, x))"
proof (rule ext)
  fix k
  show "map_of S g = Some (l, v) \<Longrightarrow>
    map_of (map (\<lambda>(h, l, v). if h = g then (h, l, x) else (h, l, v)) S) k = ((map_of S)(g \<mapsto> (l, x))) k"
    by (induction S) (auto split: if_splits, (induct_tac S; auto)?)
qed

lemma list_prom_ok: "prom_ok list_prom"
  unfolding prom_ok_def
proof (intro conjI allI impI)
  fix S l g S'
  assume a: "fam_add list_prom S l = (g, S')"
  show "(\<exists>v. map_of S g = Some (l, v) \<and> S' = S) \<or>
    (map_of S g = None \<and> (\<forall>h v. map_of S h \<noteq> Some (l, v)) \<and> map_of S' = (map_of S)(g \<mapsto> (l, 0)))"
  proof (cases "find (\<lambda>(g, l', v). l' = l \<and> map_of S g = Some (l', v)) S")
    case None
    then have "map_of S h \<noteq> Some (l, v)" for h v
      by (fastforce simp: find_None_iff dest: map_of_SomeD)
    moreover have "g = Suc (foldr max (map fst S) 0)" "S' = (g, l, 0) # S"
      using a None by (auto simp: list_prom_def Let_def)
    ultimately show ?thesis using fresh_gauge [of S] by simp
  next
    case (Some r)
    obtain h l' v where r: "r = (h, l', v)" by (cases r)
    with Some have "l' = l" "map_of S h = Some (l, v)" by (auto simp: find_Some_iff)
    moreover have "g = h" "S' = S" using a Some r by (auto simp: list_prom_def)
    ultimately show ?thesis by simp
  qed
qed (simp_all add: list_prom_def map_of_set_value)

section \<open>State\<close>

record exporter =
  ex_timeout :: int
  ex_counter :: "nat option"
  ex_family :: bool
  ex_series :: series
  ex_cache :: "(string \<times> nat) list"
  ex_stamps :: "(string \<times> string) list"
  ex_stop :: bool

text \<open>After the constructor, before \<open>exporter_start\<close> stores the counter.\<close>

definition new_exporter :: "int \<Rightarrow> exporter" where
  "new_exporter timeout = \<lparr>ex_timeout = timeout, ex_counter = None, ex_family = False,
     ex_series = [], ex_cache = [], ex_stamps = [], ex_stop = False\<rparr>"

text \<open>
  The constructor: an empty address throws before anything is created. \<open>exposer\<close> is what the
  constructor of \<open>prometheus::Exposer\<close> throws for an address it cannot listen on.
\<close>

definition make_exporter :: "(string \<Rightarrow> exn option) \<Rightarrow> string \<Rightarrow> int \<Rightarrow> (exn + exporter) \<times> effect list" where
  "make_exporter exposer address timeout =
     (let l = [Log INFO (''Initializing PrometheusExporter with address: '' @ address)] in
      if address = [] then (Inl (Runtime_error ''Address for Prometheus Exporter cannot be empty.''), l)
      else (case exposer address of Some x \<Rightarrow> (Inl x, l)
            | None \<Rightarrow> (Inr (new_exporter timeout),
                l @ [Log INFO (''PrometheusExporter initialized at: '' @ address)])))"

section \<open>Recording an event\<close>

definition gauge_key :: "event \<Rightarrow> string" where
  "gauge_key e = ''filetrace_info_record_'' @ to_string_u (ev_pid e)"

definition metric_file :: "event \<Rightarrow> string logged" where
  "metric_file e =
     (if ev_flag e = flag_code SYS_write \<or> ev_flag e = flag_code SYS_copy_file_range
      then exporter_full_path e else (cstr (ev_filename e), []))"

definition event_labels :: "string \<Rightarrow> string \<Rightarrow> string \<Rightarrow> event \<Rightarrow> labels" where
  "event_labels operation filename time_now e =
     (let base_labels = om_insert ''cmd'' (cstr (ev_cmd e)) (om_insert ''operation'' operation []);
          l1 = om_insert ''pid'' (to_string_u (ev_pid e)) base_labels;
          l2 = om_insert ''ppid'' (to_string_u (ev_ppid e)) l1;
          l3 = om_insert ''uid'' (to_string_u (ev_uid e)) l2;
          l4 = om_insert ''gid'' (to_string_u (ev_gid e)) l3;
          l5 = om_insert ''inode'' (to_string_u (ev_i_ino e)) l4;
          l6 = om_insert ''file'' filename l5;
          l7 = om_insert ''cmd'' (cstr (ev_cmd e)) l6
      in om_insert ''ts'' time_now l7)"

text \<open>The part of \<open>set_metrics\<close> under the lock.\<close>

definition touch_gauge :: "prom_lib \<Rightarrow> event \<Rightarrow> labels \<Rightarrow> string \<Rightarrow> exporter \<Rightarrow> exporter logged" where
  "touch_gauge P e lbls time_now X =
     (let key = gauge_key e;
          (g, X1, l1) =
            (case map_of (ex_cache X) key of
               Some g \<Rightarrow> (g, X, [Log INFO (''Reusing existing gauge for PID: '' @ key)])
             | None \<Rightarrow>
                 (case fam_add P (ex_series X) lbls of (g, S) \<Rightarrow>
                    (g, X\<lparr>ex_family := True, ex_series := S, ex_cache := om_put key g (ex_cache X)\<rparr>, [])));
          X2 = X1\<lparr>ex_series := gauge_set P (ex_series X1) g (int (unat (ev_pid e)))\<rparr>
      in (X2\<lparr>ex_stamps := om_put key time_now (ex_stamps X2)\<rparr>, l1))"

text \<open>\<open>set_metrics\<close>; \<open>now\<close> is what \<open>std::time\<close> returns.\<close>

definition set_metrics :: "prom_lib \<Rightarrow> int \<Rightarrow> event \<Rightarrow> exporter \<Rightarrow> fault + exporter \<times> effect list" where
  "set_metrics P now e X =
     (case nr_name (ev_flag e) of Inl x \<Rightarrow> Inl x | Inr operation \<Rightarrow>
      let (filename, l0) = metric_file e;
          (X1, l1) = (case ex_counter X of
              Some n \<Rightarrow> (X\<lparr>ex_counter := Some (Suc n)\<rparr>, [Log INFO ''Incremented file_access_counter''])
            | None \<Rightarrow> (X, []));
          time_now = to_string_i now;
          (X2, l2) = touch_gauge P e (event_labels operation filename time_now e) time_now X1
      in Inr (X2,
           [Log INFO (''Setting metrics for event with filename: '' @ cstr (ev_filename e) @
              '' and operation: '' @ operation)] @ l0 @ l1 @ l2 @
           [Log INFO (''Updated PID gauge for PID '' @ to_string_u (ev_pid e))]))"

section \<open>The cleaning thread\<close>

text \<open>One round over the entries of \<open>gauge_cache_timestamps\<close>; \<open>clock key\<close> is the time read for it.\<close>

definition drop_gauge :: "prom_lib \<Rightarrow> string \<Rightarrow> exporter \<Rightarrow> exporter logged" where
  "drop_gauge P key X =
     (case map_of (ex_cache X) key of
        None \<Rightarrow> (X, [])
      | Some g \<Rightarrow>
          (X\<lparr>ex_series := (if ex_family X then fam_remove P (ex_series X) g else ex_series X),
             ex_cache := om_del key (ex_cache X)\<rparr>,
           [Log INFO (''Removed stale gauge from cache: '' @ key)]))"

fun sweep_entries :: "prom_lib \<Rightarrow> (string \<Rightarrow> int) \<Rightarrow> (string \<times> string) list \<Rightarrow> exporter \<Rightarrow>
    fault + exporter \<times> effect list" where
  "sweep_entries P clock [] X = Inr (X, [])"
| "sweep_entries P clock ((key, timestamp_str) # rest) X =
     (case stol timestamp_str of Inl x \<Rightarrow> Inl x | Inr timestamp \<Rightarrow>
      let (X1, l1) =
        (if clock key - timestamp > ex_timeout X
         then (case drop_gauge P key X of (Y, l) \<Rightarrow> (Y\<lparr>ex_stamps := om_del key (ex_stamps Y)\<rparr>, l))
         else (X, []))
      in case sweep_entries P clock rest X1 of
           Inl x \<Rightarrow> Inl x
         | Inr (X2, l2) \<Rightarrow> Inr (X2, [Cout (''Checking gauge cache key: '' @ key)] @ l1 @ l2))"

definition sweep :: "prom_lib \<Rightarrow> (string \<Rightarrow> int) \<Rightarrow> exporter \<Rightarrow> fault + exporter \<times> effect list" where
  "sweep P clock X = sweep_entries P clock (ex_stamps X) X"

text \<open>
  The thread: before each round the stop flag is read, and a round follows a sleep of one second.
  The list holds, for each round, whether \<open>stop_cache_timeout_thread\<close> came first and the clock.
\<close>

fun timeout_rounds :: "prom_lib \<Rightarrow> (bool \<times> (string \<Rightarrow> int)) list \<Rightarrow> exporter \<Rightarrow>
    fault + exporter \<times> effect list" where
  "timeout_rounds P [] X = Inr (X, [])"
| "timeout_rounds P ((stop, clock) # rounds) X =
     (let X0 = (if stop then X\<lparr>ex_stop := True\<rparr> else X)
      in if ex_stop X0 then Inr (X0, [])
         else (case sweep P clock X0 of Inl x \<Rightarrow> Inl x
               | Inr (X1, l1) \<Rightarrow>
                  (case timeout_rounds P rounds X1 of Inl x \<Rightarrow> Inl x
                   | Inr (X2, l2) \<Rightarrow> Inr (X2, l1 @ l2))))"

definition task_gauge_cache_timeout :: "prom_lib \<Rightarrow> (bool \<times> (string \<Rightarrow> int)) list \<Rightarrow> exporter \<Rightarrow>
    fault + exporter \<times> effect list" where
  "task_gauge_cache_timeout P rounds X =
     (case timeout_rounds P rounds X of Inl x \<Rightarrow> Inl x
      | Inr (Y, l) \<Rightarrow> Inr (Y, Log INFO ''Starting gauge cache timeout task.'' # l))"

text \<open>\<open>stop_cache_timeout_thread\<close>, which then waits for the thread, and the destructor.\<close>

definition stop_cache_timeout_thread :: "exporter \<Rightarrow> exporter logged" where
  "stop_cache_timeout_thread X = (X\<lparr>ex_stop := True\<rparr>,
     [Log INFO ''Stopping cache timeout thread.'', Log INFO ''Cache timeout thread stopped.''])"

definition destroy_exporter :: "exporter \<Rightarrow> exporter logged" where
  "destroy_exporter X =
     (let (Y, l) = stop_cache_timeout_thread X
      in (Y, Log INFO ''Destroying PrometheusExporter.'' # l @ [Log INFO ''PrometheusExporter destroyed.'']))"

text \<open>
  \<open>add_counter\<close>, as \<open>exporter_start\<close> uses it: the counter of the registry with that name, which is
  new and stands at zero.
\<close>

definition add_counter :: "string \<Rightarrow> string \<Rightarrow> exporter \<Rightarrow> exporter logged" where
  "add_counter name help X = (X\<lparr>ex_counter := Some 0\<rparr>,
     [Log INFO (''Adding counter: '' @ name @ '' with help: '' @ help)])"

section \<open>The contract of an expiring cache\<close>

text \<open>
  What the exporter promises about its per-process series, in terms of when a key was last seen:
  recording an event makes its key seen now, a round forgets exactly the keys seen longer ago
  than the timeout, and a series is exported for exactly the keys that are seen.
\<close>

locale expiring_cache =
  fixes inv :: "'s \<Rightarrow> bool"
    and seen :: "'s \<Rightarrow> 'k \<Rightarrow> int option"
    and live :: "'s \<Rightarrow> 'k \<Rightarrow> bool"
    and timeout :: "'s \<Rightarrow> int"
    and key :: "'e \<Rightarrow> 'k"
    and touched :: "'s \<Rightarrow> 'e \<Rightarrow> int \<Rightarrow> 's \<Rightarrow> bool"
    and swept :: "'s \<Rightarrow> ('k \<Rightarrow> int) \<Rightarrow> 's \<Rightarrow> bool"
  assumes live_iff: "inv s \<Longrightarrow> live s k \<longleftrightarrow> seen s k \<noteq> None"
    and touched: "inv s \<Longrightarrow> touched s e t s' \<Longrightarrow> 0 \<le> t \<Longrightarrow> t < 2 ^ 63 \<Longrightarrow>
      inv s' \<and> timeout s' = timeout s \<and> seen s' = (seen s)(key e \<mapsto> t)"
    and swept: "inv s \<Longrightarrow> swept s c s' \<Longrightarrow>
      inv s' \<and> timeout s' = timeout s \<and>
      seen s' = (\<lambda>k. case seen s k of None \<Rightarrow> None
                 | Some t \<Rightarrow> if c k - t > timeout s then None else Some t)"
begin

lemma touched_then_swept:
  assumes "inv s" and "touched s e t s1" and "swept s1 c s2" and "0 \<le> t" and "t < 2 ^ 63"
  shows "live s2 (key e) \<longleftrightarrow> c (key e) - t \<le> timeout s"
    and "k \<noteq> key e \<Longrightarrow> live s2 k \<longleftrightarrow> (\<exists>u. seen s k = Some u \<and> c k - u \<le> timeout s)"
proof -
  from touched [OF assms(1,2,4,5)] have 1: "inv s1" "timeout s1 = timeout s"
    "seen s1 = (seen s)(key e \<mapsto> t)" by auto
  from swept [OF 1(1) assms(3)] have 2: "inv s2"
    "seen s2 = (\<lambda>k. case seen s1 k of None \<Rightarrow> None
                 | Some t \<Rightarrow> if c k - t > timeout s1 then None else Some t)" by auto
  show "live s2 (key e) \<longleftrightarrow> c (key e) - t \<le> timeout s"
    using live_iff [OF 2(1)] 1 2(2) by (auto split: if_splits)
  show "k \<noteq> key e \<Longrightarrow> live s2 k \<longleftrightarrow> (\<exists>u. seen s k = Some u \<and> c k - u \<le> timeout s)"
    using live_iff [OF 2(1)] 1 2(2) by (auto split: if_splits option.splits)
qed

lemma all_gone_after_timeout:
  assumes "inv s" and "swept s c s'" and "\<And>k t. seen s k = Some t \<Longrightarrow> c k - t > timeout s"
  shows "\<not> live s' k"
proof -
  from swept [OF assms(1,2)] have "inv s'" "seen s' k = None"
    using assms(3) [of k] by (auto split: option.splits)
  with live_iff show ?thesis by simp
qed

lemma sweep_twice:
  assumes "inv s" and "swept s c s1" and "swept s1 c s2"
  shows "seen s2 = seen s1"
proof -
  from swept [OF assms(1,2)] have 1: "inv s1" "timeout s1 = timeout s"
    "seen s1 = (\<lambda>k. case seen s k of None \<Rightarrow> None
                 | Some t \<Rightarrow> if c k - t > timeout s then None else Some t)" by auto
  from swept [OF 1(1) assms(3)] 1(2,3) show ?thesis
    by (auto simp: fun_eq_iff split: option.splits)
qed

end

section \<open>The invariant of the gauge cache\<close>

definition key_prefix :: string where
  "key_prefix = ''filetrace_info_record_''"

definition ex_inv :: "exporter \<Rightarrow> bool" where
  "ex_inv X \<longleftrightarrow>
     om_wf (ex_cache X) \<and> om_wf (ex_stamps X) \<and>
     (\<forall>k. map_of (ex_cache X) k = None \<longleftrightarrow> map_of (ex_stamps X) k = None) \<and>
     (\<forall>k s. map_of (ex_stamps X) k = Some s \<longrightarrow> (\<exists>t. 0 \<le> t \<and> t < 2 ^ 63 \<and> s = to_string_i t)) \<and>
     (\<forall>k g. map_of (ex_cache X) k = Some g \<longrightarrow>
        (\<exists>l v p. map_of (ex_series X) g = Some (l, v) \<and> map_of l ''pid'' = Some p \<and> k = key_prefix @ p)) \<and>
     (\<forall>g. map_of (ex_series X) g \<noteq> None \<longrightarrow> (\<exists>k. map_of (ex_cache X) k = Some g)) \<and>
     (\<not> ex_family X \<longrightarrow> ex_cache X = [])"

lemma ex_invD:
  assumes "ex_inv X"
  shows "om_wf (ex_cache X)" and "om_wf (ex_stamps X)"
    and "map_of (ex_cache X) k = None \<longleftrightarrow> map_of (ex_stamps X) k = None"
    and "map_of (ex_stamps X) k = Some s \<Longrightarrow> \<exists>t. 0 \<le> t \<and> t < 2 ^ 63 \<and> s = to_string_i t"
    and "map_of (ex_cache X) k = Some g \<Longrightarrow>
        \<exists>l v p. map_of (ex_series X) g = Some (l, v) \<and> map_of l ''pid'' = Some p \<and> k = key_prefix @ p"
    and "map_of (ex_series X) g \<noteq> None \<Longrightarrow> \<exists>k. map_of (ex_cache X) k = Some g"
    and "\<not> ex_family X \<Longrightarrow> ex_cache X = []"
  using assms unfolding ex_inv_def by blast+

lemma ex_invI:
  assumes "om_wf (ex_cache X)" and "om_wf (ex_stamps X)"
    and "\<And>k. map_of (ex_cache X) k = None \<longleftrightarrow> map_of (ex_stamps X) k = None"
    and "\<And>k s. map_of (ex_stamps X) k = Some s \<Longrightarrow> \<exists>t. 0 \<le> t \<and> t < 2 ^ 63 \<and> s = to_string_i t"
    and "\<And>k g. map_of (ex_cache X) k = Some g \<Longrightarrow>
        \<exists>l v p. map_of (ex_series X) g = Some (l, v) \<and> map_of l ''pid'' = Some p \<and> k = key_prefix @ p"
    and "\<And>g. map_of (ex_series X) g \<noteq> None \<Longrightarrow> \<exists>k. map_of (ex_cache X) k = Some g"
    and "\<not> ex_family X \<Longrightarrow> ex_cache X = []"
  shows "ex_inv X"
  unfolding ex_inv_def using assms by blast

lemma ex_inv_inj:
  assumes "ex_inv X" and "map_of (ex_cache X) k = Some g" and "map_of (ex_cache X) k' = Some g"
  shows "k = k'"
  using ex_invD(5) [OF assms(1,2)] ex_invD(5) [OF assms(1,3)] by auto

lemma new_exporter_inv [simp]: "ex_inv (new_exporter n)"
  by (simp add: ex_inv_def new_exporter_def)

lemma ex_inv_counter [simp]: "ex_inv (X\<lparr>ex_counter := c\<rparr>) = ex_inv X"
  by (simp add: ex_inv_def)

lemma event_labels_pid: "map_of (event_labels operation f t e) ''pid'' = Some (to_string_u (ev_pid e))"
  by (simp add: event_labels_def Let_def)

lemma gauge_key_pid: "gauge_key e = key_prefix @ to_string_u (ev_pid e)"
  by (simp add: gauge_key_def key_prefix_def)

lemma prom_okD:
  assumes "prom_ok P"
  shows "fam_add P S l = (g, S') \<Longrightarrow> (\<exists>v. map_of S g = Some (l, v) \<and> S' = S) \<or>
        (map_of S g = None \<and> (\<forall>h v. map_of S h \<noteq> Some (l, v)) \<and>
         map_of S' = (map_of S)(g \<mapsto> (l, 0)))"
    and "map_of (fam_remove P S g) = (map_of S)(g := None)"
    and "map_of S g = Some (l, v) \<Longrightarrow> map_of (gauge_set P S g x) = (map_of S)(g \<mapsto> (l, x))"
proof -
  note P = assms [unfolded prom_ok_def]
  show "fam_add P S l = (g, S') \<Longrightarrow> (\<exists>v. map_of S g = Some (l, v) \<and> S' = S) \<or>
        (map_of S g = None \<and> (\<forall>h v. map_of S h \<noteq> Some (l, v)) \<and>
         map_of S' = (map_of S)(g \<mapsto> (l, 0)))"
    by (rule P [THEN conjunct1, rule_format])
  show "map_of (fam_remove P S g) = (map_of S)(g := None)"
    by (rule P [THEN conjunct2, THEN conjunct1, rule_format])
  show "map_of S g = Some (l, v) \<Longrightarrow> map_of (gauge_set P S g x) = (map_of S)(g \<mapsto> (l, x))"
    by (rule P [THEN conjunct2, THEN conjunct2, rule_format])
qed

text \<open>A key that is not cached gets a new series: no other key can have its labels.\<close>

lemma fam_add_fresh:
  assumes P: "prom_ok P" and inv: "ex_inv X" and no: "map_of (ex_cache X) (gauge_key e) = None"
    and add: "fam_add P (ex_series X) l = (g, S)" and l: "map_of l ''pid'' = Some (to_string_u (ev_pid e))"
  shows "map_of (ex_series X) g = None" and "map_of S = (map_of (ex_series X))(g \<mapsto> (l, 0))"
proof -
  have "map_of (ex_series X) g \<noteq> Some (l, v)" for v
  proof
    assume g: "map_of (ex_series X) g = Some (l, v)"
    then obtain k where k: "map_of (ex_cache X) k = Some g" using ex_invD(6) [OF inv] by blast
    from ex_invD(5) [OF inv k] g l have "k = gauge_key e" by (auto simp: gauge_key_pid)
    with k no show False by simp
  qed
  with prom_okD(1) [OF P add] show "map_of (ex_series X) g = None" "map_of S = (map_of (ex_series X))(g \<mapsto> (l, 0))" by auto
qed

definition seen_at :: "exporter \<Rightarrow> string \<Rightarrow> int option" where
  "seen_at X k = (case map_of (ex_stamps X) k of None \<Rightarrow> None
     | Some s \<Rightarrow> (case stol s of Inr t \<Rightarrow> Some t | Inl _ \<Rightarrow> None))"

lemma seen_at_counter [simp]: "seen_at (X\<lparr>ex_counter := c\<rparr>) = seen_at X"
  by (simp add: seen_at_def fun_eq_iff)

text \<open>A series registered in the family, cached or not, carries the pid of the key.\<close>

definition exported :: "exporter \<Rightarrow> string \<Rightarrow> bool" where
  "exported X k \<longleftrightarrow> (\<exists>g l v p. map_of (ex_series X) g = Some (l, v) \<and> map_of l ''pid'' = Some p \<and> k = key_prefix @ p)"

lemma seen_at_stamp:
  "ex_inv X \<Longrightarrow> map_of (ex_stamps X) k = Some s \<Longrightarrow>
   \<exists>t. 0 \<le> t \<and> t < 2 ^ 63 \<and> s = to_string_i t \<and> stol s = Inr t \<and> seen_at X k = Some t"
  using ex_invD(4) [of X k s] by (auto simp: seen_at_def stol_to_string)

lemma exported_cached:
  assumes inv: "ex_inv X"
  shows "exported X k \<longleftrightarrow> map_of (ex_cache X) k \<noteq> None"
proof
  assume "exported X k"
  then obtain g l v p where g: "map_of (ex_series X) g = Some (l, v)" "map_of l ''pid'' = Some p" "k = key_prefix @ p"
    by (auto simp: exported_def)
  then obtain k' where k': "map_of (ex_cache X) k' = Some g" using ex_invD(6) [OF inv, of g] by auto
  with ex_invD(5) [OF inv k'] g have "k' = k" by auto
  with k' show "map_of (ex_cache X) k \<noteq> None" by simp
next
  assume "map_of (ex_cache X) k \<noteq> None"
  then obtain g where "map_of (ex_cache X) k = Some g" by auto
  from ex_invD(5) [OF inv this] show "exported X k" unfolding exported_def by blast
qed

lemma exported_iff:
  assumes inv: "ex_inv X"
  shows "exported X k \<longleftrightarrow> seen_at X k \<noteq> None"
proof (cases "map_of (ex_stamps X) k")
  case None
  then show ?thesis using exported_cached [OF inv, of k] ex_invD(3) [OF inv, of k] by (simp add: seen_at_def)
next
  case (Some s)
  then show ?thesis
    using exported_cached [OF inv, of k] ex_invD(3) [OF inv, of k] seen_at_stamp [OF inv Some] by auto
qed

lemma touch_gauge_spec:
  assumes P: "prom_ok P" and inv: "ex_inv X" and t: "0 \<le> t" "t < 2 ^ 63"
    and l: "map_of l ''pid'' = Some (to_string_u (ev_pid e))"
    and Y: "touch_gauge P e l (to_string_i t) X = (Y, logs)"
  shows "ex_inv Y" and "seen_at Y = (seen_at X)(gauge_key e \<mapsto> t)"
    and "ex_timeout Y = ex_timeout X" and "ex_counter Y = ex_counter X" and "ex_stop Y = ex_stop X"
    and "\<exists>g lbl. map_of (ex_cache Y) (gauge_key e) = Some g \<and>
           map_of (ex_series Y) g = Some (lbl, int (unat (ev_pid e))) \<and>
           (map_of (ex_cache X) (gauge_key e) = None \<longrightarrow> lbl = l) \<and>
           (\<forall>h. h \<noteq> g \<longrightarrow> map_of (ex_series Y) h = map_of (ex_series X) h)"
proof -
  let ?k = "gauge_key e" and ?p = "uint (ev_pid e)"
  have st: "stol (to_string_i t) = Inr t" using t by (rule stol_to_string)
  note D = ex_invD [OF inv]
  have "ex_inv Y \<and> seen_at Y = (seen_at X)(?k \<mapsto> t) \<and> ex_timeout Y = ex_timeout X \<and>
    ex_counter Y = ex_counter X \<and> ex_stop Y = ex_stop X \<and>
    (\<exists>g lbl. map_of (ex_cache Y) ?k = Some g \<and> map_of (ex_series Y) g = Some (lbl, ?p) \<and>
       (map_of (ex_cache X) ?k = None \<longrightarrow> lbl = l) \<and> (\<forall>h. h \<noteq> g \<longrightarrow> map_of (ex_series Y) h = map_of (ex_series X) h))"
  proof (cases "map_of (ex_cache X) ?k")
    case (Some g)
    then obtain l' v p where g: "map_of (ex_series X) g = Some (l', v)" "map_of l' ''pid'' = Some p"
      "?k = key_prefix @ p" using D(5) by blast
    have Y': "Y = X\<lparr>ex_series := gauge_set P (ex_series X) g ?p,
        ex_stamps := om_put ?k (to_string_i t) (ex_stamps X)\<rparr>"
      "map_of (gauge_set P (ex_series X) g ?p) = (map_of (ex_series X))(g \<mapsto> (l', ?p))"
      using Y Some prom_okD(3) [where P = P and S = "ex_series X", OF P g(1)]
      by (auto simp: touch_gauge_def Let_def)
    have "ex_inv Y"
    proof (rule ex_invI)
      fix k h
      assume h: "map_of (ex_cache Y) k = Some h"
      show "\<exists>l v p. map_of (ex_series Y) h = Some (l, v) \<and> map_of l ''pid'' = Some p \<and> k = key_prefix @ p"
      proof (cases "h = g")
        case True
        then have "k = ?k" using h Some ex_inv_inj [OF inv, of k g ?k] by (simp add: Y')
        with True g show ?thesis by (simp add: Y')
      next
        case False
        with D(5) [of k h] h show ?thesis by (simp add: Y')
      qed
    next
      fix h
      assume "map_of (ex_series Y) h \<noteq> None"
      then have "map_of (ex_series X) h \<noteq> None" using g(1) by (auto simp: Y' split: if_splits)
      with D(6) show "\<exists>k. map_of (ex_cache Y) k = Some h" by (simp add: Y')
    next
      fix k s
      assume "map_of (ex_stamps Y) k = Some s"
      then show "\<exists>t. 0 \<le> t \<and> t < 2 ^ 63 \<and> s = to_string_i t"
        using D(4) t by (auto simp: Y' split: if_splits)
    next
      fix k
      show "map_of (ex_cache Y) k = None \<longleftrightarrow> map_of (ex_stamps Y) k = None"
        using D(3) [of k] Some by (auto simp: Y')
    qed (use D(1,2,7) in \<open>simp_all add: Y'\<close>)
    then show ?thesis using Y' Some st by (simp add: seen_at_def fun_eq_iff)
  next
    case None
    obtain g S where add: "fam_add P (ex_series X) l = (g, S)" by fastforce
    note fr = fam_add_fresh [OF P inv None add l]
    have Y': "Y = X\<lparr>ex_family := True, ex_series := gauge_set P S g ?p,
        ex_cache := om_put ?k g (ex_cache X), ex_stamps := om_put ?k (to_string_i t) (ex_stamps X)\<rparr>"
      "map_of (gauge_set P S g ?p) = (map_of (ex_series X))(g \<mapsto> (l, ?p))"
      using Y None add fr prom_okD(3) [OF P, of S g l 0] by (auto simp: touch_gauge_def Let_def)
    have "ex_inv Y"
    proof (rule ex_invI)
      fix k h
      assume h: "map_of (ex_cache Y) k = Some h"
      show "\<exists>l v p. map_of (ex_series Y) h = Some (l, v) \<and> map_of l ''pid'' = Some p \<and> k = key_prefix @ p"
      proof (cases "k = ?k")
        case True
        with h have "h = g" by (simp add: Y')
        with True l show ?thesis by (simp add: Y' gauge_key_pid)
      next
        case False
        then have "map_of (ex_cache X) k = Some h" using h by (simp add: Y')
        moreover from D(5) [OF this] have "h \<noteq> g" using fr(1) by auto
        ultimately show ?thesis using D(5) [of k h] by (simp add: Y')
      qed
    next
      fix h
      assume h: "map_of (ex_series Y) h \<noteq> None"
      show "\<exists>k. map_of (ex_cache Y) k = Some h"
      proof (cases "h = g")
        case True
        then show ?thesis by (intro exI [of _ ?k]) (simp add: Y')
      next
        case False
        with h D(6) obtain k where "map_of (ex_cache X) k = Some h" by (auto simp: Y')
        with None show ?thesis by (intro exI [of _ k]) (auto simp: Y')
      qed
    next
      fix k s
      assume "map_of (ex_stamps Y) k = Some s"
      then show "\<exists>t. 0 \<le> t \<and> t < 2 ^ 63 \<and> s = to_string_i t"
        using D(4) t by (auto simp: Y' split: if_splits)
    qed (use D(1,2,3) in \<open>simp_all add: Y'\<close>)
    then show ?thesis using Y' st by (simp add: seen_at_def fun_eq_iff)
  qed
  then show "ex_inv Y" and "seen_at Y = (seen_at X)(?k \<mapsto> t)"
    and "ex_timeout Y = ex_timeout X" and "ex_counter Y = ex_counter X" and "ex_stop Y = ex_stop X"
    and "\<exists>g lbl. map_of (ex_cache Y) ?k = Some g \<and> map_of (ex_series Y) g = Some (lbl, int (unat (ev_pid e))) \<and>
           (map_of (ex_cache X) ?k = None \<longrightarrow> lbl = l) \<and>
           (\<forall>h. h \<noteq> g \<longrightarrow> map_of (ex_series Y) h = map_of (ex_series X) h)"
    by simp_all
qed

section \<open>A round of the cleaning thread\<close>

text \<open>What a round leaves of the time a key was last seen.\<close>

definition unexpired :: "int \<Rightarrow> int \<Rightarrow> int option \<Rightarrow> int option" where
  "unexpired timeout now seen =
     (case seen of None \<Rightarrow> None | Some t \<Rightarrow> if now - t > timeout then None else Some t)"

lemma drop_entry:
  assumes P: "prom_ok P" and inv: "ex_inv X" and k: "map_of (ex_stamps X) k = Some s"
    and Y: "drop_gauge P k X = (Y, l)"
  shows "ex_inv (Y\<lparr>ex_stamps := om_del k (ex_stamps Y)\<rparr>)"
    and "ex_stamps Y = ex_stamps X" and "ex_timeout Y = ex_timeout X"
    and "ex_counter Y = ex_counter X" and "ex_stop Y = ex_stop X"
proof -
  note D = ex_invD [OF inv]
  obtain g where g: "map_of (ex_cache X) k = Some g" using D(3) [of k] k by auto
  then have fam: "ex_family X" using D(7) by force
  have Y': "Y = X\<lparr>ex_series := fam_remove P (ex_series X) g, ex_cache := om_del k (ex_cache X)\<rparr>"
    using Y g fam by (simp add: drop_gauge_def)
  note rem = prom_okD(2) [OF P, of "ex_series X" g]
  show "ex_stamps Y = ex_stamps X" and "ex_timeout Y = ex_timeout X"
    and "ex_counter Y = ex_counter X" and "ex_stop Y = ex_stop X"
    by (simp_all add: Y')
  show "ex_inv (Y\<lparr>ex_stamps := om_del k (ex_stamps Y)\<rparr>)"
  proof (rule ex_invI)
    fix k' h
    assume "map_of (ex_cache (Y\<lparr>ex_stamps := om_del k (ex_stamps Y)\<rparr>)) k' = Some h"
    then have h: "map_of (ex_cache X) k' = Some h" "k' \<noteq> k" by (simp_all add: Y' split: if_splits)
    then have "h \<noteq> g" using ex_inv_inj [OF inv g] by blast
    then show "\<exists>l v p. map_of (ex_series (Y\<lparr>ex_stamps := om_del k (ex_stamps Y)\<rparr>)) h = Some (l, v) \<and>
      map_of l ''pid'' = Some p \<and> k' = key_prefix @ p"
      using D(5) [OF h(1)] by (simp add: Y' rem)
  next
    fix h
    assume "map_of (ex_series (Y\<lparr>ex_stamps := om_del k (ex_stamps Y)\<rparr>)) h \<noteq> None"
    then have h: "map_of (ex_series X) h \<noteq> None" "h \<noteq> g" by (simp_all add: Y' rem split: if_splits)
    from D(6) [OF h(1)] obtain k' where "map_of (ex_cache X) k' = Some h" by blast
    with h(2) g show "\<exists>k'. map_of (ex_cache (Y\<lparr>ex_stamps := om_del k (ex_stamps Y)\<rparr>)) k' = Some h"
      by (intro exI [of _ k']) (auto simp: Y')
  next
    fix k' s'
    assume "map_of (ex_stamps (Y\<lparr>ex_stamps := om_del k (ex_stamps Y)\<rparr>)) k' = Some s'"
    then show "\<exists>t. 0 \<le> t \<and> t < 2 ^ 63 \<and> s' = to_string_i t"
      using D(4) by (simp add: Y' split: if_splits)
  qed (use D(1,2,3) fam in \<open>simp_all add: Y'\<close>)
qed

lemma sweep_entries_ok:
  assumes "prom_ok P" and "ex_inv X" and "distinct (map fst es)"
    and "\<And>k s. (k, s) \<in> set es \<Longrightarrow> map_of (ex_stamps X) k = Some s"
  shows "\<exists>Y l. sweep_entries P clock es X = Inr (Y, l) \<and> ex_inv Y \<and>
    ex_timeout Y = ex_timeout X \<and> ex_counter Y = ex_counter X \<and> ex_stop Y = ex_stop X \<and>
    (\<forall>k. seen_at Y k = (if k \<in> fst ` set es then unexpired (ex_timeout X) (clock k) (seen_at X k)
                       else seen_at X k))"
  using assms(2-4)
proof (induction es arbitrary: X)
  case Nil
  then show ?case by simp
next
  case (Cons e es)
  obtain k s where e: "e = (k, s)" by fastforce
  have k: "map_of (ex_stamps X) k = Some s" using Cons.prems(3) e by simp
  from seen_at_stamp [OF Cons.prems(1) k] obtain t where
    t: "stol s = Inr t" "seen_at X k = Some t" by blast
  obtain Y0 l0 where d: "drop_gauge P k X = (Y0, l0)" by fastforce
  note D = drop_entry [OF assms(1) Cons.prems(1) k d]
  define gone where "gone \<longleftrightarrow> clock k - t > ex_timeout X"
  define X1 where "X1 = (if gone then Y0\<lparr>ex_stamps := om_del k (ex_stamps Y0)\<rparr> else X)"
  have X1: "ex_inv X1" "ex_timeout X1 = ex_timeout X" "ex_counter X1 = ex_counter X"
    "ex_stop X1 = ex_stop X" using D Cons.prems(1) by (simp_all add: X1_def)
  have seen1: "seen_at X1 k' = (if k' = k \<and> gone then None else seen_at X k')" for k'
    using D(2) by (simp add: X1_def seen_at_def)
  have nk: "k \<notin> fst ` set es" using Cons.prems(2) e by auto
  have "map_of (ex_stamps X1) k' = Some s'" if "(k', s') \<in> set es" for k' s'
  proof -
    from that nk have "k' \<noteq> k" by force
    then show ?thesis using Cons.prems(3) [of k' s'] that D(2) by (simp add: X1_def)
  qed
  then obtain Y l where Y: "sweep_entries P clock es X1 = Inr (Y, l)" "ex_inv Y"
    "ex_timeout Y = ex_timeout X1" "ex_counter Y = ex_counter X1" "ex_stop Y = ex_stop X1"
    "\<And>k'. seen_at Y k' = (if k' \<in> fst ` set es then unexpired (ex_timeout X1) (clock k') (seen_at X1 k')
                       else seen_at X1 k')"
    using Cons.IH [OF X1(1)] Cons.prems(2) by auto
  have "\<exists>l. sweep_entries P clock (e # es) X = Inr (Y, l)"
    using t Y(1) d by (cases gone) (simp_all add: e X1_def gone_def)
  moreover have "seen_at Y k' = (if k' \<in> fst ` set (e # es)
      then unexpired (ex_timeout X) (clock k') (seen_at X k') else seen_at X k')" for k'
  proof (cases "k' = k")
    case True
    then show ?thesis using nk Y(6) [of k] seen1 t(2) by (auto simp: e unexpired_def gone_def)
  next
    case False
    then show ?thesis using Y(6) [of k'] seen1 X1(2) by (simp add: e)
  qed
  ultimately show ?case using Y X1 by auto
qed

lemma sweep_spec:
  assumes "prom_ok P" and "ex_inv X"
  shows "\<exists>Y l. sweep P clock X = Inr (Y, l) \<and> ex_inv Y \<and> ex_timeout Y = ex_timeout X \<and>
    ex_counter Y = ex_counter X \<and> ex_stop Y = ex_stop X \<and>
    seen_at Y = (\<lambda>k. unexpired (ex_timeout X) (clock k) (seen_at X k))"
proof -
  have wf: "distinct (map fst (ex_stamps X))" using ex_invD(2) [OF assms(2)] by (rule om_wf_distinct)
  from sweep_entries_ok [OF assms wf, of clock] obtain Y l where
    Y: "sweep P clock X = Inr (Y, l)" "ex_inv Y" "ex_timeout Y = ex_timeout X"
      "ex_counter Y = ex_counter X" "ex_stop Y = ex_stop X" and
    seen: "\<And>k. seen_at Y k = (if k \<in> fst ` set (ex_stamps X)
       then unexpired (ex_timeout X) (clock k) (seen_at X k) else seen_at X k)"
    using wf by (auto simp: sweep_def)
  have "seen_at Y k = unexpired (ex_timeout X) (clock k) (seen_at X k)" for k
  proof (cases "k \<in> fst ` set (ex_stamps X)")
    case False
    then have "map_of (ex_stamps X) k = None" by (simp add: map_of_eq_None_iff)
    then have "seen_at X k = None" by (simp add: seen_at_def)
    with False seen [of k] show ?thesis by (simp add: unexpired_def)
  qed (simp add: seen)
  with Y show ?thesis by blast
qed

lemma set_metrics_spec:
  assumes P: "prom_ok P" and inv: "ex_inv X" and m: "set_metrics P now e X = Inr (Y, l)"
    and t: "0 \<le> now" "now < 2 ^ 63"
  shows "ex_inv Y" and "seen_at Y = (seen_at X)(gauge_key e \<mapsto> now)"
    and "ex_timeout Y = ex_timeout X" and "ex_stop Y = ex_stop X"
    and "ex_counter Y = map_option Suc (ex_counter X)"
    and "\<exists>g lbl. map_of (ex_cache Y) (gauge_key e) = Some g \<and>
           map_of (ex_series Y) g = Some (lbl, int (unat (ev_pid e))) \<and>
           (map_of (ex_cache X) (gauge_key e) = None \<longrightarrow>
             lbl = event_labels (nr_map ! nat (ev_flag e)) (fst (metric_file e)) (to_string_i now) e) \<and>
           (\<forall>h. h \<noteq> g \<longrightarrow> map_of (ex_series Y) h = map_of (ex_series X) h)"
proof -
  let ?l = "event_labels (nr_map ! nat (ev_flag e)) (fst (metric_file e)) (to_string_i now) e"
  define X1 where "X1 = X\<lparr>ex_counter := map_option Suc (ex_counter X)\<rparr>"
  have op: "nr_name (ev_flag e) = Inr (nr_map ! nat (ev_flag e))"
    using m by (auto simp: set_metrics_def nr_name_def split: if_splits)
  obtain f l0 where f: "metric_file e = (f, l0)" by fastforce
  obtain Z l2 where Z: "touch_gauge P e ?l (to_string_i now) X1 = (Z, l2)" by fastforce
  have "Y = Z"
  proof (cases "ex_counter X")
    case None
    then have "X1 = X" by (simp add: X1_def)
    with None m op f Z show ?thesis by (simp add: set_metrics_def Let_def)
  next
    case (Some n)
    with m op f Z show ?thesis by (simp add: set_metrics_def X1_def Let_def)
  qed
  moreover have "ex_inv X1" using inv by (simp add: X1_def)
  note S = touch_gauge_spec [OF P this t event_labels_pid Z]
  ultimately show "ex_inv Y" "seen_at Y = (seen_at X)(gauge_key e \<mapsto> now)"
    "ex_timeout Y = ex_timeout X" "ex_stop Y = ex_stop X"
    "ex_counter Y = map_option Suc (ex_counter X)"
    "\<exists>g lbl. map_of (ex_cache Y) (gauge_key e) = Some g \<and>
           map_of (ex_series Y) g = Some (lbl, int (unat (ev_pid e))) \<and>
           (map_of (ex_cache X) (gauge_key e) = None \<longrightarrow> lbl = ?l) \<and>
           (\<forall>h. h \<noteq> g \<longrightarrow> map_of (ex_series Y) h = map_of (ex_series X) h)"
    using S by (simp_all add: X1_def seen_at_def)
qed

interpretation gauges: expiring_cache ex_inv seen_at exported ex_timeout gauge_key
    "\<lambda>X e now Y. \<exists>P l. prom_ok P \<and> set_metrics P now e X = Inr (Y, l)"
    "\<lambda>X clock Y. \<exists>P l. prom_ok P \<and> sweep P clock X = Inr (Y, l)"
proof (unfold_locales, goal_cases)
  case (1 s k)
  then show ?case by (rule exported_iff)
next
  case (2 s e t s')
  then show ?case using set_metrics_spec(1-3) by blast
next
  case (3 s c s')
  then obtain P l where P: "prom_ok P" and s': "sweep P c s = Inr (s', l)" by blast
  from sweep_spec [OF P 3(1), of c] s' show ?case by (auto simp: unexpired_def)
qed

section \<open>The exporter as a whole\<close>

text \<open>
  The states of the exporter: constructed, the counter stored by \<open>exporter_start\<close>, then events
  recorded and rounds of the cleaning thread in any order.
\<close>

inductive ex_reachable :: "prom_lib \<Rightarrow> int \<Rightarrow> exporter \<Rightarrow> bool" for P timeout where
  ex_start: "ex_reachable P timeout ((new_exporter timeout)\<lparr>ex_counter := Some 0\<rparr>)"
| ex_event: "ex_reachable P timeout X \<Longrightarrow> 0 \<le> now \<Longrightarrow> now < 2 ^ 63 \<Longrightarrow>
    set_metrics P now e X = Inr (Y, l) \<Longrightarrow> ex_reachable P timeout Y"
| ex_round: "ex_reachable P timeout X \<Longrightarrow> sweep P clock X = Inr (Y, l) \<Longrightarrow> ex_reachable P timeout Y"

lemma ex_reachable_inv:
  assumes "prom_ok P" and "ex_reachable P timeout X"
  shows "ex_inv X \<and> ex_timeout X = timeout"
  using assms(2)
proof induction
  case ex_start
  then show ?case by (simp add: new_exporter_def ex_inv_def)
next
  case (ex_event X now e Y l)
  with set_metrics_spec [OF assms(1) _ ex_event(4,2,3)] show ?case by simp
next
  case (ex_round X clock Y l)
  with sweep_spec [OF assms(1), of X clock] show ?case by auto
qed

lemma set_metrics_total: "nr_name (ev_flag e) = Inr operation \<Longrightarrow>
    \<exists>Y l. set_metrics P now e X = Inr (Y, l)"
  by (simp add: set_metrics_def Let_def split: prod.split)

lemma hosts_event_flag: "nr_name (ev_flag hosts_event) = Inr ''sys_enter_write''"
  by (simp add: hosts_event_def nr_name_def nr_map_def)

text \<open>The exporter after one event of process 100 at time 1000, with a timeout of 30 seconds.\<close>

lemma sample_exporter:
  obtains Y l where "set_metrics list_prom 1000 hosts_event ((new_exporter 30)\<lparr>ex_counter := Some 0\<rparr>) = Inr (Y, l)"
  using set_metrics_total [OF hosts_event_flag] by blast

lemma timeout_rounds_stop:
  assumes "prom_ok P" and "ex_inv X"
  shows "\<exists>Y l. timeout_rounds P (rounds @ (True, clock) # later) X = Inr (Y, l) \<and>
    ex_stop Y \<and> ex_inv Y \<and> timeout_rounds P (rounds @ [(True, clock)]) X = Inr (Y, l)"
  using assms(2)
proof (induction rounds arbitrary: X)
  case Nil
  then show ?case by (simp add: ex_inv_def)
next
  case (Cons r rounds)
  obtain stop c where r: "r = (stop, c)" by fastforce
  let ?X = "if stop then X\<lparr>ex_stop := True\<rparr> else X"
  have inv: "ex_inv ?X" using Cons.prems by (simp add: ex_inv_def)
  show ?case
  proof (cases "ex_stop ?X")
    case True
    then show ?thesis using inv by (simp add: r Let_def)
  next
    case False
    from sweep_spec [OF assms(1) inv, of c] obtain Z lz where Z: "sweep P c ?X = Inr (Z, lz)" "ex_inv Z"
      by blast
    from Cons.IH [OF Z(2)] False Z(1) show ?thesis by (auto simp: r Let_def)
  qed
qed

section \<open>Properties\<close>

text \<open>Recording an event adds one to the access counter, keeps exactly one series for its PID,
  whose value is the PID, and touches no other series; a series that is new carries the labels
  of this event.\<close>

lemma set_metrics_effect:
  assumes "prom_ok P" and "ex_inv X" and "set_metrics P now e X = Inr (Y, l)"
    and "0 \<le> now" and "now < 2 ^ 63"
  shows "ex_inv Y \<and> ex_counter Y = map_option Suc (ex_counter X) \<and>
    (\<exists>g lbl. map_of (ex_cache Y) (gauge_key e) = Some g \<and>
       map_of (ex_series Y) g = Some (lbl, int (unat (ev_pid e))) \<and>
       (map_of (ex_cache X) (gauge_key e) = None \<longrightarrow>
          lbl = event_labels (nr_map ! nat (ev_flag e)) (fst (metric_file e)) (to_string_i now) e) \<and>
       (\<forall>h. h \<noteq> g \<longrightarrow> map_of (ex_series Y) h = map_of (ex_series X) h))"
  using set_metrics_spec [OF assms] by blast

text \<open>A round of the cleaning thread never throws, and afterwards a key is exported exactly
  when it was last seen no longer ago than the timeout; a removed key leaves no series behind.\<close>

lemma sweep_removes_expired:
  assumes "prom_ok P" and "ex_inv X"
  shows "\<exists>Y l. sweep P clock X = Inr (Y, l) \<and> ex_inv Y \<and>
    (\<forall>k. exported Y k \<longleftrightarrow> (\<exists>t. seen_at X k = Some t \<and> clock k - t \<le> ex_timeout X))"
proof -
  from sweep_spec [OF assms, of clock] obtain Y l where Y: "sweep P clock X = Inr (Y, l)" "ex_inv Y"
    "seen_at Y = (\<lambda>k. unexpired (ex_timeout X) (clock k) (seen_at X k))" by blast
  have "exported Y k \<longleftrightarrow> (\<exists>t. seen_at X k = Some t \<and> clock k - t \<le> ex_timeout X)" for k
    by (auto simp: exported_iff [OF Y(2)] Y(3) unexpired_def split: option.splits)
  with Y(1,2) show ?thesis by blast
qed

text \<open>C15: A series lives for the timeout after the last event of its process: from a state that
  satisfies the exporter's invariant, with a metrics library as documented, after an event at time
  \<open>now\<close> and a round of the cleaning thread, a series with its pid is registered in the exported
  family if and only if the round read the clock no more than the timeout later, and every other pid
  has one if and only if its own last event is no older than the timeout: no series outlives its
  entry in the cache.\<close>

theorem gauge_lifetime:
  assumes "prom_ok P" and "ex_inv X" and "set_metrics P now e X = Inr (X1, l1)"
    and "sweep P clock X1 = Inr (X2, l2)" and "0 \<le> now" and "now < 2 ^ 63"
  shows "(exported X2 (gauge_key e) \<longleftrightarrow> clock (gauge_key e) - now \<le> ex_timeout X) \<and>
    (\<forall>k. k \<noteq> gauge_key e \<longrightarrow>
       (exported X2 k \<longleftrightarrow> (\<exists>u. seen_at X k = Some u \<and> clock k - u \<le> ex_timeout X)))"
proof -
  have t: "\<exists>P l. prom_ok P \<and> set_metrics P now e X = Inr (X1, l)"
    and s: "\<exists>P l. prom_ok P \<and> sweep P clock X1 = Inr (X2, l)" using assms by blast+
  show ?thesis using gauges.touched_then_swept [OF assms(2) t s assms(5,6)] by blast
qed

theorem gauge_lifetime_witness:
  "\<exists>X1 X2 X3 l1 l2 l3.
     set_metrics list_prom 1000 hosts_event ((new_exporter 30)\<lparr>ex_counter := Some 0\<rparr>) = Inr (X1, l1) \<and>
     sweep list_prom (\<lambda>_. 1030) X1 = Inr (X2, l2) \<and> exported X2 (gauge_key hosts_event) \<and>
     sweep list_prom (\<lambda>_. 1031) X1 = Inr (X3, l3) \<and> \<not> exported X3 (gauge_key hosts_event)"
proof -
  let ?X = "(new_exporter 30)\<lparr>ex_counter := Some 0\<rparr>"
  have inv: "ex_inv ?X" by simp
  obtain X1 l1 where 1: "set_metrics list_prom 1000 hosts_event ?X = Inr (X1, l1)"
    by (rule sample_exporter)
  then have inv1: "ex_inv X1" using set_metrics_spec(1) [OF list_prom_ok inv 1] by simp
  obtain X2 l2 where 2: "sweep list_prom (\<lambda>_. 1030) X1 = Inr (X2, l2)"
    using sweep_spec [OF list_prom_ok inv1] by blast
  obtain X3 l3 where 3: "sweep list_prom (\<lambda>_. 1031) X1 = Inr (X3, l3)"
    using sweep_spec [OF list_prom_ok inv1] by blast
  show ?thesis
    using 1 2 3 gauge_lifetime [OF list_prom_ok inv 1 2] gauge_lifetime [OF list_prom_ok inv 1 3]
    by (auto simp: new_exporter_def)
qed

text \<open>Whatever events and cleaning rounds have happened, every exported series is cached under
  the key of the PID in its labels and every cached key has its own series and a readable time
  stamp: no series is leaked, and no two keys share one.\<close>

lemma no_leaked_series:
  assumes "prom_ok P" and "ex_reachable P timeout X"
  shows "(\<forall>g l v. map_of (ex_series X) g = Some (l, v) \<longrightarrow>
      (\<exists>p. map_of l ''pid'' = Some p \<and> map_of (ex_cache X) (key_prefix @ p) = Some g)) \<and>
    (\<forall>k. exported X k \<longleftrightarrow> seen_at X k \<noteq> None) \<and> inj_on (map_of (ex_cache X)) (dom (map_of (ex_cache X)))"
proof (intro conjI allI impI)
  from ex_reachable_inv [OF assms] have inv: "ex_inv X" by simp
  show "inj_on (map_of (ex_cache X)) (dom (map_of (ex_cache X)))"
    using ex_inv_inj [OF inv] by (auto simp: inj_on_def dom_def)
  show "exported X k \<longleftrightarrow> seen_at X k \<noteq> None" for k by (rule exported_iff [OF inv])
  fix g l v
  assume g: "map_of (ex_series X) g = Some (l, v)"
  then obtain k where k: "map_of (ex_cache X) k = Some g" using ex_invD(6) [OF inv, of g] by auto
  with ex_invD(5) [OF inv k] g show
    "\<exists>p. map_of l ''pid'' = Some p \<and> map_of (ex_cache X) (key_prefix @ p) = Some g" by auto
qed

text \<open>The cleaning thread runs no round after the stop request, whatever the rounds before it
  did, and it never fails.\<close>

lemma timeout_thread_stops:
  assumes "prom_ok P" and "ex_inv X"
  shows "\<exists>Y l. task_gauge_cache_timeout P (rounds @ (True, clock) # later) X = Inr (Y, l) \<and>
    ex_stop Y \<and> ex_inv Y \<and>
    task_gauge_cache_timeout P (rounds @ [(True, clock)]) X = Inr (Y, l)"
  using timeout_rounds_stop [OF assms, of rounds clock later] by (auto simp: task_gauge_cache_timeout_def)

end
