(* ===== verification/Parsing.thy ===== *)
theory Parsing
  imports Paths
begin

text \<open>
  The string-handling helpers of \<open>PostData\<close>: the test of an IPv4 address (a regular expression,
  then a token loop), the splitting of a \<open>/proc/<pid>/stat\<close> line, and the comparison of a command
  name with the configured skip list.
\<close>

section \<open>Regular expressions\<close>

text \<open>
  The fragment of \<open>std::regex\<close> the source writes: character classes, sequence and counted
  repetition. \<open>re_rests r s\<close> lists what can remain of \<open>s\<close> after a match of \<open>r\<close> at its start;
  \<open>regex_match\<close> wants nothing to remain.
\<close>

datatype re =
    Class "char list"
  | Seq re re
  | Times nat re
  | Between nat nat re

fun iter_rests :: "nat \<Rightarrow> (string \<Rightarrow> string list) \<Rightarrow> string \<Rightarrow> string list" where
  "iter_rests 0 f s = [s]"
| "iter_rests (Suc n) f s = concat (map (iter_rests n f) (f s))"

primrec re_rests :: "re \<Rightarrow> string \<Rightarrow> string list" where
  "re_rests (Class cs) s = (case s of [] \<Rightarrow> [] | c # r \<Rightarrow> if c \<in> set cs then [r] else [])"
| "re_rests (Seq a b) s = concat (map (re_rests b) (re_rests a s))"
| "re_rests (Times n a) s = iter_rests n (re_rests a) s"
| "re_rests (Between m n a) s =
     concat (map (\<lambda>k. iter_rests k (re_rests a) s) [m..<Suc n])"

definition regex_match :: "re \<Rightarrow> string \<Rightarrow> bool" where
  "regex_match r s \<longleftrightarrow> [] \<in> set (re_rests r s)"

text \<open>\<open>^(?:[0-9]{1,3}\.){3}[0-9]{1,3}$\<close>\<close>

definition ip_regex :: re where
  "ip_regex = Seq (Times 3 (Seq (Between 1 3 (Class ''0123456789'')) (Class ''.'')))
                  (Between 1 3 (Class ''0123456789''))"

text \<open>The loop over the tokens: \<open>stoi\<close> may throw, a value outside 0..255 is rejected.\<close>

fun octets_ok :: "string list \<Rightarrow> fault + bool" where
  "octets_ok [] = Inr True"
| "octets_ok (token # ts) = (case stoi token of
     Inl x \<Rightarrow> Inl x
   | Inr num \<Rightarrow> if num < 0 \<or> num > 255 then Inr False else octets_ok ts)"

definition is_valid_ip :: "string \<Rightarrow> fault + bool" where
  "is_valid_ip ip =
     (if \<not> regex_match ip_regex ip then Inr False else octets_ok (getline_all (CHR ''.'') ip))"

section \<open>The stat line\<close>

text \<open>
  Positions wrap around as \<open>size_t\<close>; every \<open>substr\<close> whose position is past the end throws. The
  second search for a blank has no effect, its result is overwritten.
\<close>

definition split_stat_line :: "string \<Rightarrow> fault + string list" where
  "split_stat_line line =
     (let end1 = str_find line (CHR '' '') 0 in
      case substr line 0 (sz_sub end1 0) of Inl x \<Rightarrow> Inl x | Inr pid_field \<Rightarrow>
      let start = str_find line (CHR ''('') 0;
          end2 = str_rfind line (CHR '')'') in
      case substr line start (sz_add (sz_sub end2 start) 1) of Inl x \<Rightarrow> Inl x | Inr comm \<Rightarrow>
      let start2 = sz_add end2 2 in
      case substr line start2 npos of Inl x \<Rightarrow> Inl x | Inr rest \<Rightarrow>
      Inr (pid_field # comm # tokens rest))"

section \<open>The skip list\<close>

text \<open>The loop: names longer than 15 characters are compared on their first 15.\<close>

fun match_any :: "string list \<Rightarrow> string \<Rightarrow> bool" where
  "match_any [] cmd_tmp = False"
| "match_any (skip_cmd # rest) cmd_tmp =
     (if length skip_cmd > 15 \<or> length cmd_tmp > 15
      then (if take 15 skip_cmd = take 15 cmd_tmp then True else match_any rest cmd_tmp)
      else (if skip_cmd = cmd_tmp then True else match_any rest cmd_tmp))"

definition match_process_name :: "string list \<Rightarrow> string \<Rightarrow> fault + bool" where
  "match_process_name skip_processes cmd =
     (if skip_processes = [] \<or> cmd = [] then Inr False
      else
        (let pos = str_rfind cmd SLASH in
         case substr cmd (sz_add pos 1) npos of
           Inl x \<Rightarrow> Inl x
         | Inr cmd_tmp \<Rightarrow> Inr (match_any skip_processes cmd_tmp)))"

section \<open>Facts about the regular expression\<close>

lemma iter_rests_class:
  "r \<in> set (iter_rests k (re_rests (Class cs)) s) \<longleftrightarrow>
     (\<exists>w. s = w @ r \<and> length w = k \<and> set w \<subseteq> set cs)"
proof (induction k arbitrary: s)
  case 0
  then show ?case by auto
next
  case (Suc k)
  show ?case
  proof (cases s)
    case Nil
    then show ?thesis by simp
  next
    case (Cons c t)
    have "r \<in> set (iter_rests (Suc k) (re_rests (Class cs)) s) \<longleftrightarrow>
        c \<in> set cs \<and> r \<in> set (iter_rests k (re_rests (Class cs)) t)"
      using Cons by simp
    also have "\<dots> \<longleftrightarrow> c \<in> set cs \<and> (\<exists>w. t = w @ r \<and> length w = k \<and> set w \<subseteq> set cs)"
      by (simp only: Suc.IH)
    also have "\<dots> \<longleftrightarrow> (\<exists>w. c # t = w @ r \<and> length w = Suc k \<and> set w \<subseteq> set cs)"
      by (auto simp: length_Suc_conv Cons_eq_append_conv)
    finally show ?thesis by (simp only: Cons)
  qed
qed

lemma between_class:
  "r \<in> set (re_rests (Between m n (Class cs)) s) \<longleftrightarrow>
     (\<exists>w. s = w @ r \<and> m \<le> length w \<and> length w \<le> n \<and> set w \<subseteq> set cs)"
proof -
  have "r \<in> set (re_rests (Between m n (Class cs)) s) \<longleftrightarrow>
    (\<exists>k. m \<le> k \<and> k \<le> n \<and> r \<in> set (iter_rests k (re_rests (Class cs)) s))"
    by (auto simp: less_Suc_eq_le simp del: upt_Suc re_rests.simps(1))
  then show ?thesis by (simp only: iter_rests_class) auto
qed

definition octet :: "string \<Rightarrow> bool" where
  "octet w \<longleftrightarrow> 1 \<le> length w \<and> length w \<le> 3 \<and> (\<forall>c \<in> set w. is_digit c)"

lemma octet_re: "r \<in> set (re_rests (Between 1 3 (Class ''0123456789'')) s) \<longleftrightarrow>
    (\<exists>w. s = w @ r \<and> octet w)"
  unfolding between_class octet_def is_digit_def by blast

lemma dotted_re: "r \<in> set (re_rests (Seq (Between 1 3 (Class ''0123456789'')) (Class ''.'')) s) \<longleftrightarrow>
    (\<exists>w. s = w @ CHR ''.'' # r \<and> octet w)"
proof -
  have "r \<in> set (re_rests (Seq (Between 1 3 (Class ''0123456789'')) (Class ''.'')) s) \<longleftrightarrow>
    (\<exists>t. t \<in> set (re_rests (Between 1 3 (Class ''0123456789'')) s) \<and> t = CHR ''.'' # r)"
    by (auto split: list.splits if_splits simp del: re_rests.simps(4))
  then show ?thesis by (simp only: octet_re) auto
qed

lemma ip_regex_iff:
  "regex_match ip_regex ip \<longleftrightarrow>
     (\<exists>a b c d. ip = a @ CHR ''.'' # b @ CHR ''.'' # c @ CHR ''.'' # d \<and>
        octet a \<and> octet b \<and> octet c \<and> octet d)"
proof -
  let ?o = "Between 1 3 (Class ''0123456789'')"
  let ?g = "Seq ?o (Class ''.'')"
  have three: "t \<in> set (iter_rests 3 (re_rests ?g) s) \<longleftrightarrow>
      (\<exists>a b c. s = a @ CHR ''.'' # b @ CHR ''.'' # c @ CHR ''.'' # t \<and> octet a \<and> octet b \<and> octet c)"
    for s t
  proof -
    have "t \<in> set (iter_rests 3 (re_rests ?g) s) \<longleftrightarrow> (\<exists>u v. u \<in> set (re_rests ?g s) \<and>
        v \<in> set (re_rests ?g u) \<and> t \<in> set (re_rests ?g v))"
      by (auto simp: numeral_3_eq_3 simp del: re_rests.simps)
    then show ?thesis by (simp only: dotted_re) blast
  qed
  have "regex_match ip_regex ip \<longleftrightarrow>
      (\<exists>t. t \<in> set (iter_rests 3 (re_rests ?g) ip) \<and> [] \<in> set (re_rests ?o t))"
    unfolding regex_match_def ip_regex_def re_rests.simps(2,3) by auto
  then show ?thesis by (simp only: three octet_re) auto
qed

section \<open>The address test\<close>

lemma getline_all_cut:
  "d \<notin> set w \<Longrightarrow> getline_all d (w @ d # s) = w # getline_all d s"
proof -
  assume "d \<notin> set w"
  then have "takeWhile (\<lambda>c. c \<noteq> d) (w @ d # s) = w" "dropWhile (\<lambda>c. c \<noteq> d) (w @ d # s) = d # s"
    by (intro takeWhile_cut dropWhile_cut; auto)+
  then show ?thesis by (simp add: getline_all.simps [of d "w @ d # s"])
qed

lemma getline_all_last: "d \<notin> set w \<Longrightarrow> w \<noteq> [] \<Longrightarrow> getline_all d w = [w]"
proof -
  assume a: "d \<notin> set w" "w \<noteq> []"
  then have "takeWhile (\<lambda>c. c \<noteq> d) w = w" "dropWhile (\<lambda>c. c \<noteq> d) w = []"
    by (intro takeWhile_all dropWhile_none; auto)+
  then show ?thesis using a(2) by (simp only: getline_all.simps [of d w] if_False list.case)
qed

lemma octet_no_dot: "octet w \<Longrightarrow> CHR ''.'' \<notin> set w"
  unfolding octet_def by (blast dest: digit_not_sign)

lemma octet_not_Nil: "octet w \<Longrightarrow> w \<noteq> []"
  by (auto simp: octet_def)

lemma dec_val_bound: "(\<And>c. c \<in> set ds \<Longrightarrow> is_digit c) \<Longrightarrow> dec_val ds < 10 ^ length ds"
proof (induction ds rule: rev_induct)
  case Nil
  then show ?case by (simp add: dec_val_def)
next
  case (snoc c ds)
  then have "dec_val ds < 10 ^ length ds" "digit_val c < 10" by (auto intro: digit_val_less)
  then show ?case by (simp add: dec_val_snoc)
qed

lemma stoi_octet: "octet w \<Longrightarrow> stoi w = Inr (int (dec_val w))"
proof -
  assume o: "octet w"
  then have d: "\<And>c. c \<in> set w \<Longrightarrow> is_digit c" and l: "length w \<le> 3" by (auto simp: octet_def)
  have "dec_val w < 10 ^ length w" using d by (rule dec_val_bound)
  also have "\<dots> \<le> 10 ^ 3" using l by (intro power_increasing) auto
  finally have "dec_val w < 1000" by simp
  then show ?thesis
    using scan_int_digits [OF octet_not_Nil [OF o] d] by (simp add: stoi_def)
qed

lemma octets_ok_iff: "\<forall>w \<in> set ws. octet w \<Longrightarrow> octets_ok ws = Inr (\<forall>w \<in> set ws. dec_val w \<le> 255)"
proof (induction ws)
  case Nil
  then show ?case by simp
next
  case (Cons w ws)
  then have "stoi w = Inr (int (dec_val w))" by (simp add: stoi_octet)
  moreover have "octets_ok ws = Inr (\<forall>w \<in> set ws. dec_val w \<le> 255)" using Cons by simp
  ultimately show ?case by (simp add: not_le)
qed

section \<open>The stat line, as the kernel writes it\<close>

lemma split_stat_line_ok:
  assumes pid: "CHR '' '' \<notin> set pid_field" "CHR ''('' \<notin> set pid_field"
    and rest: "CHR '')'' \<notin> set rest"
    and len: "fits (pid_field @ '' ('' @ comm @ '') '' @ rest)"
  shows "split_stat_line (pid_field @ '' ('' @ comm @ '') '' @ rest) =
    Inr (pid_field # (''('' @ comm @ '')'') # tokens rest)"
proof -
  let ?p = "length pid_field" and ?c = "length comm"
  let ?line = "pid_field @ '' ('' @ comm @ '') '' @ rest"
  have L: "length ?line < 2 ^ 63" using len by (simp only: fits_def)
  have 1: "str_find ?line (CHR '' '') 0 = ?p" using str_find_cut [OF pid(1)] by simp
  have 2: "str_find ?line (CHR ''('') 0 = Suc ?p"
    using str_find_cut [of "CHR ''(''" "pid_field @ '' ''" "comm @ '') '' @ rest"] pid(2) by simp
  have 3: "str_rfind ?line (CHR '')'') = ?p + ?c + 2"
    using str_rfind_cut [of "CHR '')''" "'' '' @ rest" "pid_field @ '' ('' @ comm"] rest by simp
  have len_eq: "length ?line = ?p + ?c + 4 + length rest" by simp
  have "?p + ?c + 4 < 2 ^ 63" using L len_eq by linarith
  then have small: "?p + ?c + 4 < 2 ^ 64" by (rule less_trans) simp
  have 4: "sz_sub ?p 0 = ?p" using small by (intro sz_sub_le [THEN trans]) auto
  have "sz_sub (?p + ?c + 2) (Suc ?p) = ?p + ?c + 2 - Suc ?p"
    using small by (intro sz_sub_le) auto
  then have 5: "sz_sub (?p + ?c + 2) (Suc ?p) = ?c + 1" by simp
  have 6: "sz_add (?c + 1) 1 = ?c + 2" using small by (subst sz_add_small) auto
  have 7: "sz_add (?p + ?c + 2) 2 = ?p + ?c + 4" using small by (subst sz_add_small) auto
  have s1: "substr ?line 0 ?p = Inr pid_field" by (simp add: substr_def)
  have s2: "substr ?line (Suc ?p) (?c + 2) = Inr (''('' @ comm @ '')'')" by (simp add: substr_def)
  have "length rest \<le> npos" using L unfolding npos_def by simp
  then have s3: "substr ?line (?p + ?c + 4) npos = Inr rest"
    by (simp add: substr_def eval_nat_numeral)
  show ?thesis
    unfolding split_stat_line_def Let_def 1 2 3 4 5 6 7 s1 s2 s3 by simp
qed

section \<open>The last component of a command name\<close>

definition base_name :: "string \<Rightarrow> string" where
  "base_name cmd = last (split_at SLASH cmd)"

lemma last_split_at: "last (split_at d (xs @ d # ys)) = last (split_at d ys)"
  by (simp add: split_at_append)

lemma base_name_cut: "SLASH \<notin> set ys \<Longrightarrow> base_name (xs @ SLASH # ys) = ys"
  by (simp add: base_name_def last_split_at split_at_no_sep)

lemma base_name_plain: "SLASH \<notin> set s \<Longrightarrow> base_name s = s"
  by (simp add: base_name_def split_at_no_sep)

lemma last_component:
  assumes "fits cmd"
  shows "substr cmd (sz_add (str_rfind cmd SLASH) 1) npos = Inr (base_name cmd)"
proof (cases "SLASH \<in> set cmd")
  case True
  then obtain xs ys where c: "cmd = xs @ SLASH # ys" "SLASH \<notin> set ys"
    by (meson split_list_last)
  have L: "length cmd < 2 ^ 63" using assms by (simp only: fits_def)
  then have "length xs + 1 < 2 ^ 64" using c(1) by simp
  then have "sz_add (length xs) 1 = length xs + 1" by (rule sz_add_small)
  moreover have "length ys \<le> npos" using L c(1) by (simp add: npos_def)
  ultimately show ?thesis
    using c by (simp add: str_rfind_cut base_name_cut substr_def)
next
  case False
  moreover have "length cmd \<le> npos" using assms by (simp add: fits_def npos_def)
  ultimately show ?thesis
    by (simp add: str_rfind_none base_name_plain substr_def)
qed

lemma match_any_iff: "match_any skips t \<longleftrightarrow> (\<exists>s \<in> set skips. take 15 s = take 15 t)"
  by (induction skips) (auto simp: not_less)

lemma is_valid_ip_eq:
  "is_valid_ip ip = Inr (\<exists>a b c d. ip = a @ ''.'' @ b @ ''.'' @ c @ ''.'' @ d \<and>
     (\<forall>w \<in> {a, b, c, d}. octet w \<and> dec_val w \<le> 255))"
proof (cases "regex_match ip_regex ip")
  case False
  have "regex_match ip_regex ip"
    if "ip = a @ ''.'' @ b @ ''.'' @ c @ ''.'' @ d" "\<forall>w \<in> {a, b, c, d}. octet w \<and> dec_val w \<le> 255"
    for a b c d
    unfolding ip_regex_iff using that by (intro exI [of _ a] exI [of _ b] exI [of _ c] exI [of _ d]) simp
  with False have "\<not> (\<exists>a b c d. ip = a @ ''.'' @ b @ ''.'' @ c @ ''.'' @ d \<and>
     (\<forall>w \<in> {a, b, c, d}. octet w \<and> dec_val w \<le> 255))" by blast
  then show ?thesis using False by (simp only: is_valid_ip_def) simp
next
  case True
  have toks: "getline_all (CHR ''.'') (a @ CHR ''.'' # b @ CHR ''.'' # c @ CHR ''.'' # d) = [a, b, c, d]"
    if "octet a" "octet b" "octet c" "octet d" for a b c d
    using that by (simp add: getline_all_cut getline_all_last octet_no_dot octet_not_Nil)
  obtain a b c d where ip: "ip = a @ CHR ''.'' # b @ CHR ''.'' # c @ CHR ''.'' # d"
    and o: "octet a" "octet b" "octet c" "octet d"
    using True by (auto simp: ip_regex_iff)
  have "is_valid_ip ip = Inr (\<forall>w \<in> set [a, b, c, d]. dec_val w \<le> 255)"
    using True toks [OF o] o ip octets_ok_iff [of "[a, b, c, d]"] by (simp add: is_valid_ip_def)
  also have "(\<forall>w \<in> set [a, b, c, d]. dec_val w \<le> 255) \<longleftrightarrow>
     (\<exists>a b c d. ip = a @ ''.'' @ b @ ''.'' @ c @ ''.'' @ d \<and>
       (\<forall>w \<in> {a, b, c, d}. octet w \<and> dec_val w \<le> 255))" (is "?L \<longleftrightarrow> ?R")
  proof
    assume ?L
    then show ?R using ip o by (intro exI [of _ a] exI [of _ b] exI [of _ c] exI [of _ d]) simp
  next
    assume ?R
    then obtain a' b' c' d' where ip': "ip = a' @ CHR ''.'' # b' @ CHR ''.'' # c' @ CHR ''.'' # d'"
      and o': "octet a'" "octet b'" "octet c'" "octet d'"
      and v: "\<forall>w \<in> {a', b', c', d'}. dec_val w \<le> 255" by auto
    have "[a', b', c', d'] = [a, b, c, d]"
      using toks [OF o] toks [OF o'] ip ip' by metis
    with v show ?L by simp
  qed
  finally show ?thesis .
qed

lemma no_parenthesis_throws:
  assumes "CHR ''('' \<notin> set line" and "fits line"
  shows "split_stat_line line = Inl (Throw Out_of_range)"
proof -
  have "length line < npos" using assms(2) by (simp add: fits_def npos_def)
  then have s: "substr line npos n = Inl (Throw Out_of_range)" for n by (rule substr_throws)
  have "substr line 0 n = Inr (take n line)" for n by (simp add: substr_def)
  then show ?thesis
    using assms(1) by (simp add: split_stat_line_def Let_def str_find_none s)
qed

lemma match_process_name_eq:
  assumes "fits cmd"
  shows "match_process_name skips cmd =
    Inr (cmd \<noteq> [] \<and> (\<exists>s \<in> set skips. take 15 s = take 15 (base_name cmd)))"
  using last_component [OF assms] by (auto simp: match_process_name_def match_any_iff)

section \<open>Properties\<close>

text \<open>C38: \<open>is_valid_ip\<close> accepts exactly the texts of four dot-separated groups of one to three digits
  with values up to 255, and it never lets an exception of \<open>stoi\<close> escape.\<close>

theorem is_valid_ip_correct:
  "is_valid_ip ip = Inr (\<exists>a b c d. ip = a @ ''.'' @ b @ ''.'' @ c @ ''.'' @ d \<and>
     (\<forall>w \<in> {a, b, c, d}. octet w \<and> dec_val w \<le> 255))"
  by (rule is_valid_ip_eq)

theorem is_valid_ip_correct_witness: "is_valid_ip ''10.0.0.255'' = Inr True"
  unfolding is_valid_ip_correct
proof (simp only: sum.inject, rule iffI [OF TrueI], intro exI conjI)
  show "''10.0.0.255'' = ''10'' @ ''.'' @ ''0'' @ ''.'' @ ''0'' @ ''.'' @ ''255''" by simp
  show "\<forall>w \<in> {''10'', ''0'', ''0'', ''255''}. octet w \<and> dec_val w \<le> 255"
    by (simp add: octet_def dec_val_def is_digit_def digit_val_def)
qed

text \<open>C40: \<open>split_stat_line\<close> takes a line of \<open>/proc/<pid>/stat\<close> apart into the process id, the command in
  its parentheses, whatever blanks or parentheses the command name itself holds, and the remaining
  blank-separated fields.\<close>

theorem split_stat_line_correct:
  assumes "CHR '' '' \<notin> set pid_field" and "CHR ''('' \<notin> set pid_field" and "CHR '')'' \<notin> set rest"
    and "fits (pid_field @ '' ('' @ comm @ '') '' @ rest)"
  shows "split_stat_line (pid_field @ '' ('' @ comm @ '') '' @ rest) =
    Inr (pid_field # (''('' @ comm @ '')'') # tokens rest)"
  using assms by (rule split_stat_line_ok)

theorem split_stat_line_correct_witness:
  "split_stat_line ''123 (a b) (c) S 456 789'' = Inr [''123'', ''(a b) (c)'', ''S'', ''456'', ''789'']"
  using split_stat_line_correct [of "''123''" "''S 456 789''" "''a b) (c''"]
  by (simp add: fits_def tokens.simps is_space_def)

text \<open>A line without an opening parenthesis, such as the empty line a process leaves that ends
  between the opening and the reading of its stat file, does not give a short list of fields: it
  throws \<open>std::out_of_range\<close>.\<close>

lemma split_stat_line_throws:
  assumes "CHR ''('' \<notin> set line" and "fits line"
  shows "split_stat_line line = Inl (Throw Out_of_range)"
  using assms by (rule no_parenthesis_throws)

text \<open>A command is skipped exactly when the last component of its name agrees with an entry of
  the skip list on the first 15 characters, all the kernel keeps of a name; no command name makes
  the test throw.\<close>

lemma match_process_name_correct:
  assumes "fits cmd"
  shows "match_process_name skips cmd =
    Inr (cmd \<noteq> [] \<and> (\<exists>s \<in> set skips. take 15 s = take 15 (base_name cmd)))"
  using assms by (rule match_process_name_eq)

end
