(* ===== verification/Utf8.thy ===== *)
theory Utf8
  imports Cxx
begin

text \<open>
  \<open>sanitize_utf8\<close> of \<open>src/post.cpp\<close>, which replaces bytes that do not start a UTF-8 sequence by
  the replacement character U+FFFD before a process name enters a JSON document. Two readings
  of "valid UTF-8" are compared: the structural one the code tests (a lead byte followed by
  the right number of continuation bytes) and the one of the Unicode standard, which also
  excludes overlong forms, surrogates and code points above U+10FFFF.
\<close>

unbundle bit_operations_syntax

section \<open>The routine\<close>

definition byte_of :: "char \<Rightarrow> byte" where
  "byte_of c = of_char c"

definition is_cont :: "char \<Rightarrow> bool" where
  "is_cont c \<longleftrightarrow> byte_of c AND 0xC0 = 0x80"

text \<open>The test \<open>i + k < n && (data[i+1] & 0xC0) == 0x80 && \<dots>\<close> on what follows position \<open>i\<close>.\<close>

definition conts :: "nat \<Rightarrow> string \<Rightarrow> bool" where
  "conts k cs \<longleftrightarrow> k \<le> length cs \<and> list_all is_cont (take k cs)"

definition replacement :: string where
  "replacement = [CHR 0xEF, CHR 0xBF, CHR 0xBD]"

fun sanitize_utf8 :: "string \<Rightarrow> string" where
  "sanitize_utf8 [] = []"
| "sanitize_utf8 (c # cs) =
     (if byte_of c < 0x80 then c # sanitize_utf8 cs
      else if drop_bit 5 (byte_of c) = 0x6 then
        (if conts 1 cs then c # take 1 cs @ sanitize_utf8 (drop 1 cs)
         else replacement @ sanitize_utf8 cs)
      else if drop_bit 4 (byte_of c) = 0xE then
        (if conts 2 cs then c # take 2 cs @ sanitize_utf8 (drop 2 cs)
         else replacement @ sanitize_utf8 cs)
      else if drop_bit 3 (byte_of c) = 0x1E then
        (if conts 3 cs then c # take 3 cs @ sanitize_utf8 (drop 3 cs)
         else replacement @ sanitize_utf8 cs)
      else replacement @ sanitize_utf8 cs)"

section \<open>Two notions of valid text\<close>

text \<open>A text is a sequence of units, each accepted by a predicate on byte strings.\<close>

inductive units :: "(string \<Rightarrow> bool) \<Rightarrow> string \<Rightarrow> bool" for U where
  units_Nil: "units U []"
| units_Cons: "U u \<Longrightarrow> units U s \<Longrightarrow> units U (u @ s)"

inductive_cases units_ConsE: "units U (c # s)"

lemma units_mono: "units U s \<Longrightarrow> (\<And>u. U u \<Longrightarrow> V u) \<Longrightarrow> units V s"
  by (induction rule: units.induct) (auto intro: units.intros)

lemma units_append: "units U s \<Longrightarrow> units U t \<Longrightarrow> units U (s @ t)"
  by (induction rule: units.induct) (auto intro: units.intros simp: append_assoc)

lemma units_single: "U u \<Longrightarrow> units U u"
  using units_Cons [of U u "[]"] by (simp add: units_Nil)

definition lax_unit :: "string \<Rightarrow> bool" where
  "lax_unit u \<longleftrightarrow> (case u of [] \<Rightarrow> False
     | c # cs \<Rightarrow> list_all is_cont cs \<and>
         (byte_of c < 0x80 \<and> length cs = 0 \<or>
          drop_bit 5 (byte_of c) = 0x6 \<and> length cs = 1 \<or>
          drop_bit 4 (byte_of c) = 0xE \<and> length cs = 2 \<or>
          drop_bit 3 (byte_of c) = 0x1E \<and> length cs = 3))"

text \<open>The well-formed byte sequences of the Unicode standard (its table 3-7), by byte ranges.\<close>

definition in_range :: "char \<Rightarrow> byte \<Rightarrow> byte \<Rightarrow> bool" where
  "in_range c lo hi \<longleftrightarrow> lo \<le> byte_of c \<and> byte_of c \<le> hi"

definition strict_unit :: "string \<Rightarrow> bool" where
  "strict_unit u \<longleftrightarrow> (case u of
       [a] \<Rightarrow> in_range a 0 0x7F
     | [a, b] \<Rightarrow> in_range a 0xC2 0xDF \<and> in_range b 0x80 0xBF
     | [a, b, c] \<Rightarrow> in_range c 0x80 0xBF \<and>
         (in_range a 0xE0 0xE0 \<and> in_range b 0xA0 0xBF \<or>
          in_range a 0xE1 0xEC \<and> in_range b 0x80 0xBF \<or>
          in_range a 0xED 0xED \<and> in_range b 0x80 0x9F \<or>
          in_range a 0xEE 0xEF \<and> in_range b 0x80 0xBF)
     | [a, b, c, d] \<Rightarrow> in_range c 0x80 0xBF \<and> in_range d 0x80 0xBF \<and>
         (in_range a 0xF0 0xF0 \<and> in_range b 0x90 0xBF \<or>
          in_range a 0xF1 0xF3 \<and> in_range b 0x80 0xBF \<or>
          in_range a 0xF4 0xF4 \<and> in_range b 0x80 0x8F)
     | _ \<Rightarrow> False)"

definition lax_utf8 :: "string \<Rightarrow> bool" where "lax_utf8 = units lax_unit"
definition strict_utf8 :: "string \<Rightarrow> bool" where "strict_utf8 = units strict_unit"

section \<open>Facts about the lead byte\<close>

text \<open>
  A byte has 256 values, so a fact about one byte is a fact about \<open>nat\<close> below 256: each class
  of lead bytes is an interval.
\<close>

lemma byte_unat_div: "unat (drop_bit k (b :: byte)) = unat b div 2 ^ k"
  by (simp only: unat_drop_bit_eq drop_bit_eq_div [of k "unat b"])

lemma lead2_iff: "drop_bit 5 (b :: byte) = 0x6 \<longleftrightarrow> 0xC0 \<le> b \<and> b \<le> 0xDF"
proof -
  have "drop_bit 5 b = 0x6 \<longleftrightarrow> unat b div 2 ^ 5 = 6"
    by (simp add: word_unat_eq_iff byte_unat_div)
  also have "\<dots> \<longleftrightarrow> 192 \<le> unat b \<and> unat b \<le> 223" by auto
  finally show ?thesis by (simp add: word_le_nat_alt)
qed

lemma lead3_iff: "drop_bit 4 (b :: byte) = 0xE \<longleftrightarrow> 0xE0 \<le> b \<and> b \<le> 0xEF"
proof -
  have "drop_bit 4 b = 0xE \<longleftrightarrow> unat b div 2 ^ 4 = 14"
    by (simp add: word_unat_eq_iff byte_unat_div)
  also have "\<dots> \<longleftrightarrow> 224 \<le> unat b \<and> unat b \<le> 239" by auto
  finally show ?thesis by (simp add: word_le_nat_alt)
qed

lemma lead4_iff: "drop_bit 3 (b :: byte) = 0x1E \<longleftrightarrow> 0xF0 \<le> b \<and> b \<le> 0xF7"
proof -
  have "drop_bit 3 b = 0x1E \<longleftrightarrow> unat b div 2 ^ 3 = 30"
    by (simp add: word_unat_eq_iff byte_unat_div)
  also have "\<dots> \<longleftrightarrow> 240 \<le> unat b \<and> unat b \<le> 247" by auto
  finally show ?thesis by (simp add: word_le_nat_alt)
qed

lemma cont_bits_table: "list_all (\<lambda>n::int. (n AND 192 = 128) = (128 \<le> n \<and> n < 192)) [0..255]"
  by (simp add: upto_rec1)

lemma is_cont_iff: "is_cont c \<longleftrightarrow> 0x80 \<le> byte_of c \<and> byte_of c \<le> 0xBF"
proof -
  let ?n = "uint (byte_of c)"
  have "0 \<le> ?n" "?n \<le> 255" using uint_lt2p [of "byte_of c"] by simp_all
  then have "(?n AND 192 = 128) = (128 \<le> ?n \<and> ?n < 192)"
    using cont_bits_table by (simp add: list_all_iff)
  then show ?thesis
    by (auto simp: is_cont_def word_uint_eq_iff uint_and word_le_def)
qed

lemmas lead_iffs = lead2_iff lead3_iff lead4_iff

lemma lax_unit_replacement: "lax_unit replacement"
  by (simp add: lax_unit_def replacement_def is_cont_def byte_of_def)

lemma lax_unitI:
  "byte_of c < 0x80 \<Longrightarrow> lax_unit [c]"
  "drop_bit 5 (byte_of c) = 0x6 \<Longrightarrow> conts 1 cs \<Longrightarrow> lax_unit (c # take 1 cs)"
  "drop_bit 4 (byte_of c) = 0xE \<Longrightarrow> conts 2 cs \<Longrightarrow> lax_unit (c # take 2 cs)"
  "drop_bit 3 (byte_of c) = 0x1E \<Longrightarrow> conts 3 cs \<Longrightarrow> lax_unit (c # take 3 cs)"
  by (simp_all add: lax_unit_def conts_def)

lemma strict_imp_lax: "strict_unit u \<Longrightarrow> lax_unit u"
  unfolding strict_unit_def lax_unit_def in_range_def is_cont_iff lead_iffs word_le_nat_alt
    word_less_nat_alt
  by (auto split: list.splits simp: is_cont_iff word_le_nat_alt)

section \<open>What the routine computes\<close>

lemma units_ConsI: "lax_unit (c # u) \<Longrightarrow> units lax_unit s \<Longrightarrow> units lax_unit (c # u @ s)"
  using units_Cons [of lax_unit "c # u" s] by simp

text \<open>One step of the loop copies an ASCII byte, copies a sequence, or replaces one byte.\<close>

lemma sanitize_step:
  obtains (ascii) "byte_of c < 0x80" "sanitize_utf8 (c # cs) = c # sanitize_utf8 cs"
  | (seq) k where "\<not> byte_of c < 0x80" "0 < k" "conts k cs" "lax_unit (c # take k cs)"
      "sanitize_utf8 (c # cs) = c # take k cs @ sanitize_utf8 (drop k cs)"
  | (bad) "\<not> byte_of c < 0x80" "sanitize_utf8 (c # cs) = replacement @ sanitize_utf8 cs"
proof -
  note st = sanitize_utf8.simps(2) [of c cs]
  show thesis
  proof (cases "byte_of c < 0x80")
    case True
    then show thesis by (intro ascii) (simp_all only: st if_True)
  next
    case a: False
    show thesis
    proof (cases "drop_bit 5 (byte_of c) = 0x6 \<and> conts 1 cs")
      case True
      then show thesis by (intro seq [of 1] lax_unitI a) (simp_all only: st a if_True if_False, simp)
    next
      case b: False
      show thesis
      proof (cases "drop_bit 5 (byte_of c) \<noteq> 0x6 \<and> drop_bit 4 (byte_of c) = 0xE \<and> conts 2 cs")
        case True
        then show thesis by (intro seq [of 2] lax_unitI a) (simp_all only: st a if_True if_False, simp)
      next
        case d: False
        show thesis
        proof (cases "drop_bit 5 (byte_of c) \<noteq> 0x6 \<and> drop_bit 4 (byte_of c) \<noteq> 0xE \<and>
            drop_bit 3 (byte_of c) = 0x1E \<and> conts 3 cs")
          case True
          then show thesis by (intro seq [of 3] lax_unitI a) (simp_all only: st a if_True if_False, simp)
        next
          case False
          then have "sanitize_utf8 (c # cs) = replacement @ sanitize_utf8 cs"
            using b d unfolding st if_not_P [OF a] by (simp only: if_False if_True split: if_split) blast
          then show thesis by (intro bad a)
        qed
      qed
    qed
  qed
qed

declare sanitize_utf8.simps(2) [simp del]

lemma sanitize_units: "units lax_unit (sanitize_utf8 s)"
proof (induction s rule: length_induct)
  case (1 s)
  show ?case
  proof (cases s)
    case Nil
    then show ?thesis by (simp add: units_Nil)
  next
    case (Cons c cs)
    have IH: "units lax_unit (sanitize_utf8 (drop k cs))" for k
      using 1 Cons by simp
    show ?thesis
    proof (cases rule: sanitize_step [of c cs])
      case ascii
      then show ?thesis
        using Cons IH [of 0] units_ConsI [of c "[]"] lax_unitI(1) by simp
    next
      case (seq k)
      then show ?thesis using Cons IH by (simp add: units_ConsI)
    next
      case bad
      then show ?thesis using Cons IH [of 0] by (simp add: units_Cons lax_unit_replacement)
    qed
  qed
qed

lemma sanitize_unit:
  assumes "lax_unit u"
  shows "sanitize_utf8 (u @ s) = u @ sanitize_utf8 s"
proof -
  obtain c cs where u: "u = c # cs" and cs: "list_all is_cont cs"
    using assms by (auto simp: lax_unit_def split: list.splits)
  have k: "conts (length cs) (cs @ s)" using cs by (simp add: conts_def)
  consider "byte_of c < 0x80" "length cs = 0"
    | "drop_bit 5 (byte_of c) = 0x6" "length cs = 1"
    | "drop_bit 4 (byte_of c) = 0xE" "length cs = 2"
    | "drop_bit 3 (byte_of c) = 0x1E" "length cs = 3"
    using assms u by (auto simp: lax_unit_def)
  then show ?thesis
  proof cases
    case 1
    then show ?thesis using u by (simp add: sanitize_utf8.simps)
  next
    case 2
    then have "\<not> byte_of c < 0x80" by (simp add: lead_iffs word_le_nat_alt word_less_nat_alt)
    with 2 k u show ?thesis by (simp add: sanitize_utf8.simps)
  next
    case 3
    then have "\<not> byte_of c < 0x80" "drop_bit 5 (byte_of c) \<noteq> 0x6"
      by (simp_all add: lead_iffs word_le_nat_alt word_less_nat_alt)
    with 3 k u show ?thesis by (simp add: sanitize_utf8.simps)
  next
    case 4
    then have "\<not> byte_of c < 0x80" "drop_bit 5 (byte_of c) \<noteq> 0x6" "drop_bit 4 (byte_of c) \<noteq> 0xE"
      by (simp_all add: lead_iffs word_le_nat_alt word_less_nat_alt)
    with 4 k u show ?thesis by (simp add: sanitize_utf8.simps)
  qed
qed

lemma sanitize_fixes_units: "units lax_unit s \<Longrightarrow> sanitize_utf8 s = s"
  by (induction rule: units.induct) (simp_all add: sanitize_unit)

lemma sanitize_length_bound: "length (sanitize_utf8 s) \<le> 3 * length s"
proof (induction s rule: length_induct)
  case (1 s)
  show ?case
  proof (cases s)
    case Nil
    then show ?thesis by simp
  next
    case (Cons c cs)
    have IH: "length (sanitize_utf8 (drop k cs)) \<le> 3 * length (drop k cs)" for k
      using 1 [rule_format, of "drop k cs"] Cons by simp
    show ?thesis
    proof (cases rule: sanitize_step [of c cs])
      case ascii
      then show ?thesis using Cons IH [of 0] by simp
    next
      case (seq k)
      then have "k \<le> length cs" by (simp add: conts_def)
      then show ?thesis using Cons IH [of k] seq(5) by simp
    next
      case bad
      then show ?thesis using Cons IH [of 0] by (simp add: replacement_def)
    qed
  qed
qed

definition ascii :: "char \<Rightarrow> bool" where
  "ascii c \<longleftrightarrow> byte_of c < 0x80"

lemma cont_not_ascii: "is_cont c \<Longrightarrow> \<not> ascii c"
  by (simp add: is_cont_iff ascii_def word_le_nat_alt word_less_nat_alt)

lemma conts_no_ascii: "conts k cs \<Longrightarrow> filter ascii (take k cs) = []"
  by (auto simp: conts_def filter_empty_conv list_all_iff dest: cont_not_ascii)

lemma sanitize_keeps_ascii: "filter ascii (sanitize_utf8 s) = filter ascii s"
proof (induction s rule: length_induct)
  case (1 s)
  show ?case
  proof (cases s)
    case Nil
    then show ?thesis by simp
  next
    case (Cons c cs)
    have IH: "filter ascii (sanitize_utf8 (drop k cs)) = filter ascii (drop k cs)" for k
      using 1 Cons by simp
    show ?thesis
    proof (cases rule: sanitize_step [of c cs])
      case ascii
      then show ?thesis using Cons IH [of 0] by (simp add: ascii_def [of c])
    next
      case (seq k)
      have "filter ascii cs = filter ascii (take k cs) @ filter ascii (drop k cs)"
        by (metis append_take_drop_id filter_append)
      then show ?thesis using Cons IH [of k] seq by (simp add: ascii_def [of c] conts_no_ascii)
    next
      case bad
      have "filter ascii replacement = []"
        by (simp add: replacement_def ascii_def byte_of_def)
      then show ?thesis using Cons IH [of 0] bad by (simp add: ascii_def [of c])
    qed
  qed
qed

lemma strict_utf8_ascii: "list_all ascii s \<Longrightarrow> strict_utf8 s"
proof (induction s)
  case Nil
  then show ?case by (simp add: strict_utf8_def units_Nil)
next
  case (Cons c s)
  have "strict_unit [c]"
    using Cons.prems by (simp add: strict_unit_def in_range_def ascii_def word_le_nat_alt word_less_nat_alt)
  then show ?case
    using Cons units_Cons [of strict_unit "[c]" s] by (simp add: strict_utf8_def)
qed

text \<open>A text whose first bytes begin no unit is not a text.\<close>

lemma units_first: "units U (c # s) \<Longrightarrow> (\<exists>u t. c # s = u @ t \<and> U u \<and> u \<noteq> []) \<or> U []"
  by (erule units.cases) auto

lemma not_strict:
  assumes "\<And>n. \<not> strict_unit (take n (c # s))"
  shows "\<not> strict_utf8 (c # s)"
proof
  assume "strict_utf8 (c # s)"
  then obtain u t where "c # s = u @ t" "strict_unit u"
    using units_first [of strict_unit c s] by (auto simp: strict_utf8_def strict_unit_def [of "[]"])
  then show False using assms [of "length u"] by simp
qed

section \<open>Properties\<close>

text \<open>C37: \<open>sanitize_utf8\<close> always delivers a sequence of lead bytes each followed by the right number of
  continuation bytes, and it changes a text exactly when the text is not one already; in
  particular sanitising twice is sanitising once.\<close>

theorem sanitize_structural:
  "lax_utf8 (sanitize_utf8 s) \<and> (sanitize_utf8 s = s \<longleftrightarrow> lax_utf8 s) \<and>
   sanitize_utf8 (sanitize_utf8 s) = sanitize_utf8 s"
  unfolding lax_utf8_def using sanitize_units sanitize_fixes_units by metis

text \<open>No text that is valid by the Unicode standard is altered, whatever its script.\<close>

lemma sanitize_keeps_valid_text:
  assumes "strict_utf8 s"
  shows "sanitize_utf8 s = s"
  using assms unfolding strict_utf8_def
  by (intro sanitize_fixes_units) (erule units_mono, rule strict_imp_lax)

text \<open>Sanitising keeps every ASCII character, in order, and at most triples the length.\<close>

lemma sanitize_ascii_and_length:
  "filter ascii (sanitize_utf8 s) = filter ascii s \<and> length (sanitize_utf8 s) \<le> 3 * length s"
  using sanitize_keeps_ascii sanitize_length_bound by blast

text \<open>Three sequences the Unicode standard excludes, an overlong form, a surrogate and a code
  point above U+10FFFF, pass the routine unchanged, although its comment promises that invalid
  sequences are replaced.\<close>

lemma sanitize_passes_invalid:
  "sanitize_utf8 [CHR 0xC0, CHR 0x80] = [CHR 0xC0, CHR 0x80] \<and>
   \<not> strict_utf8 [CHR 0xC0, CHR 0x80] \<and>
   sanitize_utf8 [CHR 0xED, CHR 0xA0, CHR 0x80] = [CHR 0xED, CHR 0xA0, CHR 0x80] \<and>
   \<not> strict_utf8 [CHR 0xED, CHR 0xA0, CHR 0x80] \<and>
   sanitize_utf8 [CHR 0xF4, CHR 0x90, CHR 0x80, CHR 0x80] = [CHR 0xF4, CHR 0x90, CHR 0x80, CHR 0x80] \<and>
   \<not> strict_utf8 [CHR 0xF4, CHR 0x90, CHR 0x80, CHR 0x80]"
proof (intro conjI not_strict)
  show "sanitize_utf8 [CHR 0xC0, CHR 0x80] = [CHR 0xC0, CHR 0x80]" by code_simp
  show "sanitize_utf8 [CHR 0xED, CHR 0xA0, CHR 0x80] = [CHR 0xED, CHR 0xA0, CHR 0x80]" by code_simp
  show "sanitize_utf8 [CHR 0xF4, CHR 0x90, CHR 0x80, CHR 0x80] = [CHR 0xF4, CHR 0x90, CHR 0x80, CHR 0x80]"
    by code_simp
  fix n
  show "\<not> strict_unit (take n [CHR 0xC0, CHR 0x80])"
    by (auto simp: strict_unit_def in_range_def byte_of_def take_Cons split: nat.splits)
  show "\<not> strict_unit (take n [CHR 0xED, CHR 0xA0, CHR 0x80])"
    by (auto simp: strict_unit_def in_range_def byte_of_def take_Cons split: nat.splits)
  show "\<not> strict_unit (take n [CHR 0xF4, CHR 0x90, CHR 0x80, CHR 0x80])"
    by (auto simp: strict_unit_def in_range_def byte_of_def take_Cons split: nat.splits)
qed

end
