(* ===== verification/Json.thy ===== *)
theory Json
  imports Utf8 "HOL-Library.Countable"
begin

text \<open>
  The JSON values the program exchanges. Parsing, printing and the narrowing conversion to \<open>int\<close>
  belong to the nlohmann library: they are the fields of the parameter \<open>json_lib\<close>, and \<open>json_ok\<close>
  is what its documentation says of them. The access operations the source uses work on the value
  type itself, with the exceptions the library documents for each of them.
\<close>

section \<open>Values\<close>

text \<open>
  An object is a \<open>std::map\<close>: its members in key order. A floating-point number is identified by
  the text it prints as; nothing but \<open>get<int>\<close> ever reads one.
\<close>

datatype json =
    JNull
  | JBool bool
  | JInt int
  | JFloat string
  | JStr string
  | JArr "json list"
  | JObj "(string \<times> json) list"

instance json :: countable
  by countable_datatype

text \<open>Objects in key order, integers of 64 bits: what a value of the library can be.\<close>

fun json_wf :: "json \<Rightarrow> bool" where
  "json_wf (JInt i) \<longleftrightarrow> - (2 ^ 63) \<le> i \<and> i < 2 ^ 64"
| "json_wf (JArr vs) \<longleftrightarrow> (\<forall>v \<in> set vs. json_wf v)"
| "json_wf (JObj m) \<longleftrightarrow> om_wf m \<and> (\<forall>(k, v) \<in> set m. json_wf v)"
| "json_wf _ \<longleftrightarrow> True"

text \<open>Every string in the value is well-formed UTF-8, so that \<open>dump\<close> accepts it.\<close>

fun json_utf8 :: "json \<Rightarrow> bool" where
  "json_utf8 (JStr s) \<longleftrightarrow> strict_utf8 s"
| "json_utf8 (JArr vs) \<longleftrightarrow> (\<forall>v \<in> set vs. json_utf8 v)"
| "json_utf8 (JObj m) \<longleftrightarrow> (\<forall>(k, v) \<in> set m. strict_utf8 k \<and> json_utf8 v)"
| "json_utf8 _ \<longleftrightarrow> True"

section \<open>Access\<close>

definition is_object :: "json \<Rightarrow> bool" where
  "is_object j \<longleftrightarrow> (case j of JObj _ \<Rightarrow> True | _ \<Rightarrow> False)"

definition is_string :: "json \<Rightarrow> bool" where
  "is_string j \<longleftrightarrow> (case j of JStr _ \<Rightarrow> True | _ \<Rightarrow> False)"

definition contains :: "json \<Rightarrow> string \<Rightarrow> bool" where
  "contains j k \<longleftrightarrow> (case j of JObj m \<Rightarrow> map_of m k \<noteq> None | _ \<Rightarrow> False)"

text \<open>\<open>operator[]\<close> on a constant value: it must not be used with a key that is absent.\<close>

definition at_const :: "json \<Rightarrow> string \<Rightarrow> fault + json" where
  "at_const j k = (case j of
       JObj m \<Rightarrow> (case map_of m k of Some v \<Rightarrow> Inr v | None \<Rightarrow> Inl Undefined_behaviour)
     | _ \<Rightarrow> Inl (Throw Json_type_error))"

text \<open>
  \<open>operator[]\<close> on a variable creates the member, as null, when it is absent, and turns null into
  an object; the new value of the variable comes first.
\<close>

definition at_ref :: "json \<Rightarrow> string \<Rightarrow> fault + json \<times> json" where
  "at_ref j k = (case j of
       JNull \<Rightarrow> Inr (JObj [(k, JNull)], JNull)
     | JObj m \<Rightarrow> (case map_of m k of Some v \<Rightarrow> Inr (j, v)
                  | None \<Rightarrow> Inr (JObj (om_put k JNull m), JNull))
     | _ \<Rightarrow> Inl (Throw Json_type_error))"

text \<open>Assignment to such a member, \<open>j[k] = v\<close>.\<close>

definition put :: "string \<Rightarrow> json \<Rightarrow> json \<Rightarrow> fault + json" where
  "put k v j = (case j of
       JNull \<Rightarrow> Inr (JObj [(k, v)])
     | JObj m \<Rightarrow> Inr (JObj (om_put k v m))
     | _ \<Rightarrow> Inl (Throw Json_type_error))"

definition get_string :: "json \<Rightarrow> fault + string" where
  "get_string j = (case j of JStr s \<Rightarrow> Inr s | _ \<Rightarrow> Inl (Throw Json_type_error))"

definition get_bool :: "json \<Rightarrow> fault + bool" where
  "get_bool j = (case j of JBool b \<Rightarrow> Inr b | _ \<Rightarrow> Inl (Throw Json_type_error))"

fun strings_of :: "json list \<Rightarrow> fault + string list" where
  "strings_of [] = Inr []"
| "strings_of (v # vs) =
     (case get_string v of Inl x \<Rightarrow> Inl x | Inr s \<Rightarrow>
      (case strings_of vs of Inl x \<Rightarrow> Inl x | Inr ss \<Rightarrow> Inr (s # ss)))"

definition get_strings :: "json \<Rightarrow> fault + string list" where
  "get_strings j = (case j of JArr vs \<Rightarrow> strings_of vs | _ \<Rightarrow> Inl (Throw Json_type_error))"

text \<open>\<open>value(key, default)\<close> with the conversion of the default's type.\<close>

definition value_or :: "(json \<Rightarrow> fault + 'a) \<Rightarrow> json \<Rightarrow> string \<Rightarrow> 'a \<Rightarrow> fault + 'a" where
  "value_or conv j k dflt = (case j of
       JObj m \<Rightarrow> (case map_of m k of Some v \<Rightarrow> conv v | None \<Rightarrow> Inr dflt)
     | _ \<Rightarrow> Inl (Throw Json_type_error))"

definition of_strings :: "string list \<Rightarrow> json" where
  "of_strings ss = JArr (map JStr ss)"

lemma strings_of_JStr [simp]: "strings_of (map JStr ss) = Inr ss"
  by (induction ss) (simp_all add: get_string_def)

lemma get_strings_of_strings [simp]: "get_strings (of_strings ss) = Inr ss"
  by (simp add: get_strings_def of_strings_def)

lemma get_conv_simps [simp]:
  "get_string (JStr s) = Inr s" "get_bool (JBool b) = Inr b"
  by (simp_all add: get_string_def get_bool_def)

section \<open>The library\<close>

record json_lib =
  j_parse :: "string \<Rightarrow> fault + json"
  j_read :: "string \<Rightarrow> fault + json"
  j_left :: "string \<Rightarrow> json"
  j_dump :: "nat option \<Rightarrow> json \<Rightarrow> fault + string"
  j_int :: "json \<Rightarrow> fault + int"
  j_what :: "fault \<Rightarrow> string"

text \<open>
  \<open>json::parse\<close> (\<open>j_parse\<close>) and \<open>stream >> j\<close> (\<open>j_read\<close>, which leaves \<open>j_left\<close> in the variable
  when it throws) fail with a parse error and deliver well-formed values with UTF-8 strings;
  \<open>dump\<close> throws a type error exactly when a string is not UTF-8, and what it prints, with or
  without a line break after it, reads back as the same value; \<open>get<int>\<close> converts an integer in
  range, always delivers an \<open>int\<close>, and throws a type error for null, strings, arrays and objects.
\<close>

definition json_ok :: "json_lib \<Rightarrow> bool" where
  "json_ok J \<longleftrightarrow>
     (\<forall>s x. j_parse J s = Inl x \<longrightarrow> x = Throw Json_parse_error) \<and>
     (\<forall>s v. j_parse J s = Inr v \<longrightarrow> json_wf v \<and> json_utf8 v) \<and>
     (\<forall>s x. j_read J s = Inl x \<longrightarrow> x = Throw Json_parse_error) \<and>
     (\<forall>s v. j_read J s = Inr v \<longrightarrow> json_wf v \<and> json_utf8 v) \<and>
     (\<forall>i v. \<not> json_utf8 v \<longrightarrow> j_dump J i v = Inl (Throw Json_type_error)) \<and>
     (\<forall>i v. json_utf8 v \<longrightarrow> (\<exists>s. j_dump J i v = Inr s \<and> s \<noteq> [])) \<and>
     (\<forall>i v s. json_wf v \<longrightarrow> j_dump J i v = Inr s \<longrightarrow>
        j_parse J s = Inr v \<and> j_read J s = Inr v \<and> j_read J (s @ [CHR 0x0A]) = Inr v) \<and>
     (\<forall>i. - (2 ^ 31) \<le> i \<and> i < 2 ^ 31 \<longrightarrow> j_int J (JInt i) = Inr i) \<and>
     (\<forall>v i. j_int J v = Inr i \<longrightarrow> - (2 ^ 31) \<le> i \<and> i < 2 ^ 31) \<and>
     (\<forall>v x. j_int J v = Inl x \<longrightarrow> x = Throw Json_type_error) \<and>
     (\<forall>v. (case v of JNull \<Rightarrow> True | JStr _ \<Rightarrow> True | JArr _ \<Rightarrow> True | JObj _ \<Rightarrow> True | _ \<Rightarrow> False) \<longrightarrow>
        j_int J v = Inl (Throw Json_type_error))"

lemma json_ok_parse:
  assumes "json_ok J"
  shows "j_parse J s = Inl x \<Longrightarrow> x = Throw Json_parse_error"
    and "j_parse J s = Inr v \<Longrightarrow> json_wf v" and "j_parse J s = Inr v \<Longrightarrow> json_utf8 v"
    and "j_read J s = Inl x \<Longrightarrow> x = Throw Json_parse_error"
    and "j_read J s = Inr v \<Longrightarrow> json_wf v" and "j_read J s = Inr v \<Longrightarrow> json_utf8 v"
proof -
  note J = assms [unfolded json_ok_def]
  show "j_parse J s = Inl x \<Longrightarrow> x = Throw Json_parse_error"
    and "j_read J s = Inl x \<Longrightarrow> x = Throw Json_parse_error" using J by metis+
  show "j_parse J s = Inr v \<Longrightarrow> json_wf v" and "j_parse J s = Inr v \<Longrightarrow> json_utf8 v"
    and "j_read J s = Inr v \<Longrightarrow> json_wf v" and "j_read J s = Inr v \<Longrightarrow> json_utf8 v"
    using J by metis+
qed

lemma json_ok_dump:
  assumes "json_ok J"
  shows "\<not> json_utf8 v \<Longrightarrow> j_dump J i v = Inl (Throw Json_type_error)"
    and "json_utf8 v \<Longrightarrow> \<exists>s. j_dump J i v = Inr s \<and> s \<noteq> []"
    and "json_wf v \<Longrightarrow> j_dump J i v = Inr s \<Longrightarrow> j_parse J s = Inr v"
    and "json_wf v \<Longrightarrow> j_dump J i v = Inr s \<Longrightarrow> j_read J (s @ [CHR 0x0A]) = Inr v"
proof -
  note J = assms [unfolded json_ok_def]
  show "\<not> json_utf8 v \<Longrightarrow> j_dump J i v = Inl (Throw Json_type_error)" using J by metis
  show "json_utf8 v \<Longrightarrow> \<exists>s. j_dump J i v = Inr s \<and> s \<noteq> []" using J by metis
  show "json_wf v \<Longrightarrow> j_dump J i v = Inr s \<Longrightarrow> j_parse J s = Inr v"
    and "json_wf v \<Longrightarrow> j_dump J i v = Inr s \<Longrightarrow> j_read J (s @ [CHR 0x0A]) = Inr v" using J by metis+
qed

lemma json_ok_int:
  assumes "json_ok J"
  shows "- (2 ^ 31) \<le> i \<Longrightarrow> i < 2 ^ 31 \<Longrightarrow> j_int J (JInt i) = Inr i"
    and "j_int J v = Inr i \<Longrightarrow> - (2 ^ 31) \<le> i \<and> i < 2 ^ 31"
    and "j_int J v = Inl x \<Longrightarrow> x = Throw Json_type_error"
    and "j_int J (JStr s) = Inl (Throw Json_type_error)"
proof -
  note J = assms [unfolded json_ok_def]
  show "- (2 ^ 31) \<le> i \<Longrightarrow> i < 2 ^ 31 \<Longrightarrow> j_int J (JInt i) = Inr i" using J by metis
  show "j_int J v = Inr i \<Longrightarrow> - (2 ^ 31) \<le> i \<and> i < 2 ^ 31" using J by metis
  show "j_int J v = Inl x \<Longrightarrow> x = Throw Json_type_error" using J by metis
  have "\<forall>v. (case v of JNull \<Rightarrow> True | JStr _ \<Rightarrow> True | JArr _ \<Rightarrow> True | JObj _ \<Rightarrow> True | _ \<Rightarrow> False) \<longrightarrow>
        j_int J v = Inl (Throw Json_type_error)" using J by blast
  from this [rule_format, of "JStr s"] show "j_int J (JStr s) = Inl (Throw Json_type_error)" by simp
qed

section \<open>A library to evaluate the model with\<close>

text \<open>
  Any injective printing will do: this one numbers the values. It shows that the hypotheses
  collected in \<open>json_ok\<close> can hold together.
\<close>

definition num_parse :: "string \<Rightarrow> fault + json" where
  "num_parse s = (case scan_int s of None \<Rightarrow> Inl (Throw Json_parse_error)
     | Some i \<Rightarrow> (let v = from_nat (nat i) in
         if json_wf v \<and> json_utf8 v then Inr v else Inl (Throw Json_parse_error)))"

definition num_json :: json_lib where
  "num_json = \<lparr>
     j_parse = num_parse, j_read = num_parse, j_left = (\<lambda>_. JNull),
     j_dump = (\<lambda>_ v. if json_utf8 v then Inr (dec_of_nat (to_nat v)) else Inl (Throw Json_type_error)),
     j_int = (\<lambda>v. case v of JInt i \<Rightarrow> if - (2 ^ 31) \<le> i \<and> i < 2 ^ 31 then Inr i else Inr 0
                | JBool b \<Rightarrow> Inr (if b then 1 else 0) | JFloat _ \<Rightarrow> Inr 0
                | _ \<Rightarrow> Inl (Throw Json_type_error)),
     j_what = (\<lambda>_. ''error'')\<rparr>"

lemma scan_int_line: "scan_int (dec_of_nat n @ [CHR 0x0A]) = Some (int n)"
proof -
  obtain c cs where ds: "dec_of_nat n = c # cs" by (cases "dec_of_nat n") auto
  then have c: "is_digit c" using dec_of_nat_digits [of c n] by simp
  have "takeWhile is_digit (dec_of_nat n @ [CHR 0x0A]) = dec_of_nat n"
    by (rule takeWhile_cut) (auto simp: dec_of_nat_digits is_digit_def [of "CHR 0x0A"])
  moreover have "dropWhile is_space (dec_of_nat n @ [CHR 0x0A]) = dec_of_nat n @ [CHR 0x0A]"
    using c ds by (simp add: digit_not_space)
  ultimately show ?thesis
    using ds digit_not_sign [OF c] dec_val_dec_of_nat [of n] by (simp add: scan_int_def Let_def)
qed

lemma num_json_ok: "json_ok num_json"
  unfolding json_ok_def num_json_def
  by (auto simp: num_parse_def Let_def scan_int_dec_of_nat scan_int_line
      split: option.splits if_splits json.splits)

end
