(* ===== verification/Post.thy ===== *)
theory Post
  imports Exporter Parsing Json
begin

text \<open>
  The state of a \<open>PostData\<close> object, \<open>src/include/post.hpp\<close>, its constructors' initial values, and
  the shape of the operations on it: a result, or the exception that ended the operation, together
  with the state at that point, because what an operation changed before it threw stays changed.
  The world the object reads (the user database, \<open>/proc\<close>, the BPF map, the HTTP client, the
  libraries) is the parameter \<open>env\<close>.
\<close>

section \<open>State\<close>

record postdata =
  pd_ragdoll_api :: string
  pd_config_json :: string
  pd_conf_list :: "string list"
  pd_skip_processes :: "string list"
  pd_host_id :: string
  pd_domain_name :: string
  pd_cluster_id :: string
  pd_server :: string
  pd_exporter_address :: string
  pd_cache_timeout_seconds :: int
  pd_log_level :: string
  pd_log_file :: string
  pd_verbose :: bool
  pd_cache_data :: bool
  pd_monitor_file_path :: string
  pd_max_event_queue_size :: int
  pd_max_dir_level :: int
  pd_exporter :: "exporter option"
  pd_port :: int
  pd_publish :: bool
  pd_config_json_obj :: json
  pd_exec_map_fd :: int
  pd_event_queue :: "json list"
  pd_skel :: bool
  pd_log_size :: nat

text \<open>
  The constructors set some members; the rest of a fresh object is empty, null or, for the scalar
  members, whatever the memory held: \<open>memory\<close> stands for that.
\<close>

definition fresh_object :: "postdata \<Rightarrow> postdata" where
  "fresh_object memory = memory\<lparr>pd_ragdoll_api := [], pd_config_json := [], pd_conf_list := [],
     pd_skip_processes := [], pd_host_id := [], pd_domain_name := [], pd_cluster_id := [],
     pd_server := [], pd_exporter_address := [], pd_log_level := [], pd_log_file := [],
     pd_monitor_file_path := [], pd_config_json_obj := JNull, pd_event_queue := []\<rparr>"

definition default_object :: "postdata \<Rightarrow> postdata" where
  "default_object memory = (fresh_object memory)\<lparr>pd_publish := False, pd_verbose := False,
     pd_max_dir_level := 4, pd_exporter := None, pd_exec_map_fd := -1, pd_log_size := 0,
     pd_skel := False\<rparr>"

definition initial_object :: "string \<Rightarrow> bool \<Rightarrow> string \<Rightarrow> postdata \<Rightarrow> postdata" where
  "initial_object configFile verb path memory = (fresh_object memory)\<lparr>pd_config_json := configFile,
     pd_publish := False, pd_verbose := verb, pd_monitor_file_path := path, pd_max_dir_level := 4\<rparr>"

section \<open>The world\<close>

text \<open>
  \<open>en_map_ret\<close> is the error code of a failed map lookup, \<open>en_stat\<close> the text of
  \<open>/proc/<pid>/stat\<close> when it can be opened, \<open>en_logins\<close> the utmp records (whether the type is
  \<open>USER_PROCESS\<close>, the user, the host), \<open>en_curl\<close> the outcome of an HTTP POST: an error text or the
  status code.
\<close>

record env =
  en_json :: json_lib
  en_prom :: prom_lib
  en_now :: int
  en_user :: "u32 \<Rightarrow> string option"
  en_group :: "u32 \<Rightarrow> string option"
  en_logins :: "(bool \<times> string \<times> string) list"
  en_map :: "u32 \<Rightarrow> pinfo_t option"
  en_map_ret :: int
  en_stat :: "u32 \<Rightarrow> string option"
  en_malloc :: bool
  en_curl_init :: bool
  en_curl :: "string \<Rightarrow> string \<Rightarrow> string + int"

section \<open>Operations with early returns\<close>

datatype step_result =
    Next postdata "effect list"
  | Return int postdata "effect list"
  | Raise fault postdata "effect list"

fun add_effects :: "effect list \<Rightarrow> step_result \<Rightarrow> step_result" where
  "add_effects l (Next p m) = Next p (l @ m)"
| "add_effects l (Return r p m) = Return r p (l @ m)"
| "add_effects l (Raise x p m) = Raise x p (l @ m)"

text \<open>A body of a function as its statements in order; the first that does not go on ends it.\<close>

fun run_steps :: "(postdata \<Rightarrow> step_result) list \<Rightarrow> postdata \<Rightarrow> step_result" where
  "run_steps [] p = Next p []"
| "run_steps (s # ss) p =
     (case s p of Next q l \<Rightarrow> add_effects l (run_steps ss q) | r \<Rightarrow> r)"

declare run_steps.simps [simp del]

lemma add_effects_Nil [simp]: "add_effects [] r = r"
  by (cases r) simp_all

lemma add_effects_NextD: "add_effects l r = Next p m \<Longrightarrow> \<exists>k. r = Next p k \<and> m = l @ k"
  by (cases r) auto

lemma run_steps_NextE:
  assumes "run_steps (s # ss) p = Next q l"
  obtains p1 l1 l2 where "s p = Next p1 l1" and "run_steps ss p1 = Next q l2"
  using assms by (auto simp: run_steps.simps split: step_result.splits dest: add_effects_NextD)

text \<open>What a statement guarantees whatever way it ends.\<close>

fun ends_in :: "(postdata \<Rightarrow> bool) \<Rightarrow> (int \<Rightarrow> bool) \<Rightarrow> (fault \<Rightarrow> bool) \<Rightarrow> step_result \<Rightarrow> bool" where
  "ends_in P R F (Next p l) \<longleftrightarrow> P p"
| "ends_in P R F (Return r p l) \<longleftrightarrow> P p \<and> R r"
| "ends_in P R F (Raise x p l) \<longleftrightarrow> P p \<and> F x"

lemma ends_in_add [simp]: "ends_in P R F (add_effects l r) = ends_in P R F r"
  by (cases r) simp_all

lemma run_steps_ends_in:
  assumes "\<And>s q. s \<in> set ss \<Longrightarrow> P q \<Longrightarrow> ends_in P R F (s q)" and "P p"
  shows "ends_in P R F (run_steps ss p)"
  using assms
proof (induction ss arbitrary: p)
  case (Cons s ss)
  have "ends_in P R F (s p)" using Cons.prems by simp
  then show ?case using Cons by (cases "s p") (simp_all add: run_steps.simps)
qed (simp add: run_steps.simps)

section \<open>A sample object\<close>

text \<open>The members of a small configuration, and the object a load of it leaves.\<close>

definition sample_members :: "(string \<times> json) list" where
  "sample_members = [(''config_list'', of_strings [''/etc/hosts'']), (''domain_name'', JStr ''dom''),
     (''host_id'', JStr ''h1''), (''ragdoll_api'', JStr ''http://a/b''),
     (''skip_processes_list'', of_strings [])]"

definition sample_path :: string where "sample_path = ''/etc/f.json''"

definition sample_object :: postdata where
  "sample_object =
     \<lparr>pd_ragdoll_api = ''http://a/b'', pd_config_json = sample_path, pd_conf_list = [''/etc/hosts''],
      pd_skip_processes = [], pd_host_id = ''h1'', pd_domain_name = ''dom'', pd_cluster_id = [],
      pd_server = ''0.0.0.0'', pd_exporter_address = ''0.0.0.0:8080'', pd_cache_timeout_seconds = 30,
      pd_log_level = ''info'', pd_log_file = ''/var/log/filetrace.log'', pd_verbose = False,
      pd_cache_data = False, pd_monitor_file_path = [], pd_max_event_queue_size = 1000,
      pd_max_dir_level = 4, pd_exporter = None, pd_port = 8080, pd_publish = False,
      pd_config_json_obj = JObj sample_members, pd_exec_map_fd = 3, pd_event_queue = [],
      pd_skel = True, pd_log_size = 100 * 1024 * 1024\<rparr>"

lemma sample_object_simps [simp]:
  "pd_config_json sample_object = sample_path" "pd_conf_list sample_object = [''/etc/hosts'']"
  "pd_config_json_obj sample_object = JObj sample_members" "pd_max_dir_level sample_object = 4"
  by (simp_all add: sample_object_def)

end
