(* ===== verification/EventFilter.thy ===== *)
theory EventFilter
  imports Post
begin

text \<open>
  Which events are reported: \<open>compare_config_file\<close> and \<open>is_valid_event\<close> of \<open>src/post.cpp\<close>. Both
  only read the object, and log.
\<close>

section \<open>The tests\<close>

fun list_has :: "string list \<Rightarrow> string \<Rightarrow> bool" where
  "list_has [] config = False"
| "list_has (item # items) config = (if item = config then True else list_has items config)"

definition compare_config_file :: "postdata \<Rightarrow> string list \<Rightarrow> string \<Rightarrow> bool logged" where
  "compare_config_file p v config =
     (let l = (if pd_verbose p
               then [Log INFO (''Comparing config file: '' @ config @ '' with '' @ pd_monitor_file_path p)]
               else []) in
      if pd_verbose p \<and> pd_monitor_file_path p = config then (True, l)
      else if v = [] \<or> config = [] then (False, l)
      else (list_has v config, l))"

text \<open>The \<open>switch\<close> over the system call: the string that is compared, and its effects.\<close>

definition compared_path :: "event \<Rightarrow> string logged option" where
  "compared_path e =
     (if ev_flag e = flag_code SYS_unlinkat then Some (get_full_path e)
      else if ev_flag e = flag_code SYS_rename \<or> ev_flag e = flag_code SYS_renameat \<or>
              ev_flag e = flag_code SYS_renameat2 then Some (cstr (ev_filename e), [])
      else if ev_flag e = flag_code SYS_copy_file_range \<or> ev_flag e = flag_code SYS_write
           then Some (get_full_path e)
      else None)"

definition is_valid_event :: "event \<Rightarrow> postdata \<Rightarrow> fault + bool \<times> effect list" where
  "is_valid_event e p =
     (if \<not> is_valid_filename (cstr (ev_filename e)) then Inr (False, [])
      else if ev_pid e = 0 then Inr (False, [])
      else
        (case match_process_name (pd_skip_processes p) (cstr (ev_cmd e)) of
           Inl x \<Rightarrow> Inl x
         | Inr True \<Rightarrow> Inr (False, [])
         | Inr False \<Rightarrow>
             (case compared_path e of
                None \<Rightarrow> Inr (False, [])
              | Some (path, l1) \<Rightarrow>
                  (case compare_config_file p (pd_conf_list p) path of
                     (found, l2) \<Rightarrow> Inr (found, l1 @ l2)))))"

section \<open>What they decide\<close>

text \<open>A path the object watches.\<close>

definition watched :: "postdata \<Rightarrow> string \<Rightarrow> bool" where
  "watched p path \<longleftrightarrow> pd_verbose p \<and> pd_monitor_file_path p = path \<or>
     path \<noteq> [] \<and> path \<in> set (pd_conf_list p)"

text \<open>The path of the file an event is about, as far as the filter knows it.\<close>

definition event_path :: "event \<Rightarrow> string option" where
  "event_path e = map_option fst (compared_path e)"

definition skipped :: "postdata \<Rightarrow> event \<Rightarrow> bool" where
  "skipped p e \<longleftrightarrow> cstr (ev_cmd e) \<noteq> [] \<and>
     (\<exists>s \<in> set (pd_skip_processes p). take 15 s = take 15 (base_name (cstr (ev_cmd e))))"

lemma list_has_iff: "list_has v c \<longleftrightarrow> c \<in> set v"
  by (induction v) auto

lemma compare_config_file_iff: "fst (compare_config_file p (pd_conf_list p) path) \<longleftrightarrow> watched p path"
  by (auto simp: compare_config_file_def watched_def list_has_iff Let_def)

lemma cmd_fits: "event_wf e \<Longrightarrow> fits (cstr (ev_cmd e))"
  using length_cstr_terminated [of TASK_COMM_LEN "ev_cmd e"]
  by (simp add: event_wf_def fits_def TASK_COMM_LEN_def)

lemma is_valid_event_eq:
  assumes "event_wf e"
  shows "\<exists>l. is_valid_event e p = Inr (
    is_valid_filename (cstr (ev_filename e)) \<and> ev_pid e \<noteq> 0 \<and> \<not> skipped p e \<and>
    (\<exists>path. event_path e = Some path \<and> watched p path), l)"
proof -
  have "match_process_name (pd_skip_processes p) (cstr (ev_cmd e)) = Inr (skipped p e)"
    unfolding skipped_def by (rule match_process_name_eq [OF cmd_fits [OF assms]])
  moreover have "\<exists>l. compare_config_file p (pd_conf_list p) path = (watched p path, l)" for path
    using compare_config_file_iff [of p path]
    by (cases "compare_config_file p (pd_conf_list p) path") simp
  ultimately show ?thesis
  proof (cases "compared_path e")
    case (Some pl)
    obtain path l1 where pl: "pl = (path, l1)" by fastforce
    obtain l2 where "compare_config_file p (pd_conf_list p) path = (watched p path, l2)"
      using \<open>\<And>path. \<exists>l. compare_config_file p (pd_conf_list p) path = (watched p path, l)\<close> by blast
    with \<open>match_process_name _ _ = _\<close> Some pl show ?thesis
      by (cases "skipped p e") (simp_all add: is_valid_event_def event_path_def)
  qed (simp add: is_valid_event_def event_path_def split: bool.splits)
qed

lemma is_valid_event_logs:
  "is_valid_event e p = Inr (b, l) \<Longrightarrow> \<forall>x \<in> set l. is_log x"
  by (auto simp: is_valid_event_def compared_path_def compare_config_file_def get_full_path_def Let_def
      split: if_splits sum.splits bool.splits)

lemma hosts_event_wf: "event_wf hosts_event"
  using zero_event_wf by (simp add: event_wf_def hosts_event_def to_buf_terminated size_consts)

lemma hosts_event_fields:
  "cstr (ev_filename hosts_event) = ''hosts''" "cstr (ev_cmd hosts_event) = ''bash''"
  "ev_pid hosts_event = 100" "ev_flag hosts_event = 5"
  by (simp_all add: hosts_event_def)

section \<open>Properties\<close>

text \<open>C4: An event is reported exactly when its file name is not empty and not hidden, its process is
  known and not on the skip list, its system call is one of the six, and the path it stands for (the
  rebuilt full path for unlink, write and copy, the name as given for the three renames) is configured
  or, in verbose mode, the one given on the command line; the test never throws.\<close>

theorem is_valid_event_correct:
  assumes "event_wf e"
  shows "\<exists>l. is_valid_event e p = Inr (
    cstr (ev_filename e) \<noteq> [] \<and> hd (cstr (ev_filename e)) \<noteq> CHR ''.'' \<and> ev_pid e \<noteq> 0 \<and> \<not> skipped p e \<and>
    (if ev_flag e \<in> {0, 1, 5} then watched p (fst (get_full_path e))
     else ev_flag e \<in> {2, 3, 4} \<and> watched p (cstr (ev_filename e))), l)"
  using is_valid_event_eq [OF assms, of p]
  by (cases "get_full_path e") (auto simp: is_valid_filename_def event_path_def compared_path_def)

theorem is_valid_event_correct_witness:
  "\<exists>l m. is_valid_event hosts_event sample_object = Inr (True, l) \<and>
     is_valid_event hosts_event (sample_object\<lparr>pd_skip_processes := [''bash'']\<rparr>) = Inr (False, m)"
  using is_valid_event_correct [OF hosts_event_wf, of sample_object]
    is_valid_event_correct [OF hosts_event_wf, of "sample_object\<lparr>pd_skip_processes := [''bash'']\<rparr>"]
  by (simp add: hosts_event_fields hosts_event_path watched_def skipped_def base_name_plain sample_object_def)

end
