(* ===== verification/Config.thy ===== *)
theory Config
  imports Post
begin

text \<open>
  Reading and rewriting the configuration: \<open>load_config\<close>, \<open>update_config\<close>, the handlers of
  \<open>POST /filetrace\<close> and \<open>GET /filetrace\<close>. \<open>load_config\<close> is the list of its statements; each
  assigns a member of the object, or returns -1, or throws into one of the handlers at its end.
\<close>

section \<open>Statements\<close>

text \<open>\<open>member = config_json_obj[key].get<T>()\<close> and \<open>member = config_json_obj.value(key, default)\<close>.\<close>

definition read_ref :: "string \<Rightarrow> (json \<Rightarrow> fault + 'a) \<Rightarrow> ('a \<Rightarrow> postdata \<Rightarrow> postdata) \<Rightarrow>
    postdata \<Rightarrow> step_result" where
  "read_ref key conv assign p =
     (case at_ref (pd_config_json_obj p) key of Inl x \<Rightarrow> Raise x p []
      | Inr (obj, v) \<Rightarrow>
          (let q = p\<lparr>pd_config_json_obj := obj\<rparr>
           in case conv v of Inl x \<Rightarrow> Raise x q [] | Inr a \<Rightarrow> Next (assign a q) []))"

definition read_value :: "string \<Rightarrow> (json \<Rightarrow> fault + 'a) \<Rightarrow> 'a \<Rightarrow> ('a \<Rightarrow> postdata \<Rightarrow> postdata) \<Rightarrow>
    postdata \<Rightarrow> step_result" where
  "read_value key conv dflt assign p =
     (case value_or conv (pd_config_json_obj p) key dflt of Inl x \<Rightarrow> Raise x p []
      | Inr a \<Rightarrow> Next (assign a p) [])"

text \<open>\<open>if (bad) { LOG_ERROR(..); return -1; }\<close> and \<open>if (bad) { LOG_WARN(..); member = ..; }\<close>.\<close>

definition reject_if :: "(postdata \<Rightarrow> bool) \<Rightarrow> (postdata \<Rightarrow> string) \<Rightarrow> postdata \<Rightarrow> step_result" where
  "reject_if bad msg p = (if bad p then Return (-1) p [Log ERROR (msg p)] else Next p [])"

definition repair_if :: "(postdata \<Rightarrow> bool) \<Rightarrow> string \<Rightarrow> (postdata \<Rightarrow> postdata) \<Rightarrow> postdata \<Rightarrow>
    step_result" where
  "repair_if bad msg assign p = (if bad p then Next (assign p) [Log WARN msg] else Next p [])"

text \<open>\<open>log_size\<close> is given in megabytes; \<open>(size_t)log_size_mb * 1024 * 1024\<close> wraps around.\<close>

definition read_log_size :: "json_lib \<Rightarrow> postdata \<Rightarrow> step_result" where
  "read_log_size J p =
     (case value_or (j_int J) (pd_config_json_obj p) ''log_size'' 100 of Inl x \<Rightarrow> Raise x p []
      | Inr log_size_mb \<Rightarrow>
          Next (p\<lparr>pd_log_size := (to_size log_size_mb * 1024 mod 2 ^ 64) * 1024 mod 2 ^ 64\<rparr>)
            [Log INFO (''Log level set to: '' @ pd_log_level p @ '', log file: '' @ pd_log_file p @
               '', log size limit: '' @ to_string_i log_size_mb @ '' MB'')])"

text \<open>The loop over the configured paths: the message of the first that is rejected.\<close>

fun check_levels :: "int \<Rightarrow> string list \<Rightarrow> string option logged" where
  "check_levels max_level [] = (None, [])"
| "check_levels max_level (conf # confs) =
     (let (level, l1) = get_dir_level conf
      in if level < 0 then (Some (''Invalid path in config: '' @ conf), l1)
         else if level > max_level
         then (Some (''Path exceeds maximum directory level ('' @ to_string_i max_level @ ''): '' @ conf), l1)
         else (let (r, l2) = check_levels max_level confs in (r, l1 @ l2)))"

definition check_dir_levels :: "postdata \<Rightarrow> step_result" where
  "check_dir_levels p =
     (case check_levels (pd_max_dir_level p) (pd_conf_list p) of
        (Some msg, l) \<Rightarrow> Return (-1) p (l @ [Log ERROR msg])
      | (None, l) \<Rightarrow> Next p l)"

definition check_server :: "postdata \<Rightarrow> step_result" where
  "check_server p =
     (case is_valid_ip (pd_server p) of Inl x \<Rightarrow> Raise x p []
      | Inr ok \<Rightarrow> if \<not> ok then Return (-1) p [Log ERROR (''Invalid server IP address: '' @ pd_server p)]
                  else Next p [])"

definition report_config :: "string \<Rightarrow> postdata \<Rightarrow> step_result" where
  "report_config configFile p = Next p
     ([Log INFO (''Configuration loaded from '' @ configFile),
       Log INFO (''ragdoll_api: '' @ pd_ragdoll_api p), Log INFO ''skip_processes: ''] @
      map (Log INFO) (pd_skip_processes p) @ [Log INFO ''conf_list: ''] @
      map (Log INFO) (pd_conf_list p) @
      [Log INFO (''max_dir_level: '' @ to_string_i (pd_max_dir_level p)),
       Log INFO (''max_event_queue_size: '' @ to_string_i (pd_max_event_queue_size p)),
       Log INFO (''host_id: '' @ pd_host_id p), Log INFO (''domain_name: '' @ pd_domain_name p),
       Log INFO (''cluster_id: '' @ pd_cluster_id p),
       Log INFO (''publish: '' @ (if pd_publish p then ''true'' else ''false''))])"

section \<open>Loading\<close>

definition path_steps :: "json_lib \<Rightarrow> (postdata \<Rightarrow> step_result) list" where
  "path_steps J =
     [read_ref ''config_list'' get_strings (\<lambda>a. pd_conf_list_update (\<lambda>_. a)),
      reject_if (\<lambda>p. pd_conf_list p = [])
        (\<lambda>_. ''Configuration list is empty, please check your config file.''),
      read_value ''log_level'' get_string ''info'' (\<lambda>a. pd_log_level_update (\<lambda>_. a)),
      read_value ''log_file'' get_string ''/var/log/filetrace.log'' (\<lambda>a. pd_log_file_update (\<lambda>_. a)),
      read_log_size J,
      read_value ''max_dir_level'' (j_int J) 4 (\<lambda>a. pd_max_dir_level_update (\<lambda>_. a)),
      repair_if (\<lambda>p. pd_max_dir_level p \<le> 0) ''max_dir_level must be positive, using default 4''
        (pd_max_dir_level_update (\<lambda>_. 4)),
      check_dir_levels]"

definition host_steps :: "(postdata \<Rightarrow> step_result) list" where
  "host_steps =
     [read_ref ''host_id'' get_string (\<lambda>a. pd_host_id_update (\<lambda>_. a)),
      reject_if (\<lambda>p. pd_host_id p = []) (\<lambda>_. ''Host ID is empty, please check your config file.''),
      read_ref ''domain_name'' get_string (\<lambda>a. pd_domain_name_update (\<lambda>_. a)),
      reject_if (\<lambda>p. pd_domain_name p = [])
        (\<lambda>_. ''Domain name is empty, please check your config file.''),
      read_value ''cluster_id'' get_string [] (\<lambda>a. pd_cluster_id_update (\<lambda>_. a)),
      read_ref ''ragdoll_api'' get_string (\<lambda>a. pd_ragdoll_api_update (\<lambda>_. a)),
      read_ref ''skip_processes_list'' get_strings (\<lambda>a. pd_skip_processes_update (\<lambda>_. a))]"

definition service_steps :: "json_lib \<Rightarrow> (postdata \<Rightarrow> step_result) list" where
  "service_steps J =
     [read_value ''publish'' get_bool False (\<lambda>a. pd_publish_update (\<lambda>_. a)),
      read_value ''cache_data'' get_bool False (\<lambda>a. pd_cache_data_update (\<lambda>_. a)),
      read_value ''server'' get_string ''0.0.0.0'' (\<lambda>a. pd_server_update (\<lambda>_. a)),
      check_server,
      read_value ''port'' (j_int J) 8080 (\<lambda>a. pd_port_update (\<lambda>_. a)),
      read_value ''exporter_address'' get_string ''0.0.0.0:8080''
        (\<lambda>a. pd_exporter_address_update (\<lambda>_. a)),
      read_value ''cache_timeout_seconds'' (j_int J) 30 (\<lambda>a. pd_cache_timeout_seconds_update (\<lambda>_. a)),
      repair_if (\<lambda>p. pd_cache_timeout_seconds p \<le> 0)
        ''cache_timeout_seconds must be positive, using default 30''
        (pd_cache_timeout_seconds_update (\<lambda>_. 30)),
      read_value ''max_event_queue_size'' (j_int J) 1000 (\<lambda>a. pd_max_event_queue_size_update (\<lambda>_. a)),
      repair_if (\<lambda>p. pd_max_event_queue_size p \<le> 0)
        ''max_event_queue_size must be positive, using default 1000''
        (pd_max_event_queue_size_update (\<lambda>_. 1000))]"

text \<open>\<open>file >> config_json_obj\<close>.\<close>

definition read_config :: "json_lib \<Rightarrow> string \<Rightarrow> postdata \<Rightarrow> step_result" where
  "read_config J text p =
     (case j_read J text of Inl x \<Rightarrow> Raise x (p\<lparr>pd_config_json_obj := j_left J text\<rparr>) []
      | Inr v \<Rightarrow> Next (p\<lparr>pd_config_json_obj := v\<rparr>) [])"

definition load_steps :: "json_lib \<Rightarrow> string \<Rightarrow> string \<Rightarrow> (postdata \<Rightarrow> step_result) list" where
  "load_steps J text configFile =
     read_config J text # path_steps J @ host_steps @ service_steps J @ [report_config configFile]"

text \<open>The three handlers.\<close>

definition config_error :: "json_lib \<Rightarrow> exn \<Rightarrow> string" where
  "config_error J x =
     (case x of Json_parse_error \<Rightarrow> ''JSON parse error: '' | Json_type_error \<Rightarrow> ''JSON type error: ''
      | _ \<Rightarrow> ''General error: '') @ j_what J (Throw x)"

definition read_file :: "fs \<Rightarrow> string \<Rightarrow> string option" where
  "read_file f p = (if fs_may_open f p then contents f p else None)"

definition load_config :: "json_lib \<Rightarrow> fs \<Rightarrow> string \<Rightarrow> postdata \<Rightarrow> (fault + int) \<times> postdata \<times> effect list"
  where
  "load_config J f configFile p =
     (let l0 = [Log INFO (''Loading configuration from '' @ configFile)] in
      case read_file f configFile of
        None \<Rightarrow> (Inr (-1), p, l0 @ [Log ERROR (''Could not open config file: '' @ configFile)])
      | Some text \<Rightarrow>
          (case run_steps (load_steps J text configFile) p of
             Next q l \<Rightarrow> (Inr 0, q, l0 @ l)
           | Return r q l \<Rightarrow> (Inr r, q, l0 @ l)
           | Raise (Throw x) q l \<Rightarrow> (Inr (-1), q, l0 @ l @ [Log ERROR (config_error J x)])
           | Raise Undefined_behaviour q l \<Rightarrow> (Inl Undefined_behaviour, q, l0 @ l)))"

section \<open>Updating\<close>

text \<open>\<open>j[key].is_string()\<close> and \<open>j[key].get<std::string>()\<close>.\<close>

definition member_is_string :: "json \<Rightarrow> string \<Rightarrow> bool" where
  "member_is_string j key = (case at_const j key of Inr v \<Rightarrow> is_string v | Inl _ \<Rightarrow> False)"

definition member_string :: "json \<Rightarrow> string \<Rightarrow> fault + string" where
  "member_string j key = (case at_const j key of Inl x \<Rightarrow> Inl x | Inr v \<Rightarrow> get_string v)"

text \<open>The test that \<open>update_config\<close> and its HTTP handler both make of a request.\<close>

definition bad_request :: "json \<Rightarrow> bool" where
  "bad_request j \<longleftrightarrow>
     \<not> is_object j \<or> \<not> contains j ''conf'' \<or> \<not> member_is_string j ''conf'' \<or>
     \<not> contains j ''action'' \<or> \<not> member_is_string j ''action''"

text \<open>The change of \<open>conf_list\<close>; \<open>None\<close> for an action that is neither of the two.\<close>

definition edit_list :: "string \<Rightarrow> string \<Rightarrow> string list \<Rightarrow> string list option" where
  "edit_list action conf confs =
     (if action = ''add'' then Some (confs @ [conf])
      else if action = ''remove'' then Some (filter (\<lambda>c. c \<noteq> conf) confs)
      else None)"

text \<open>From \<open>config_json_obj["config_list"] = conf_list\<close> to the end of the function.\<close>

definition persist_config :: "json_lib \<Rightarrow> fs \<Rightarrow> postdata \<Rightarrow>
    (fault + int) \<times> fs \<times> postdata \<times> effect list" where
  "persist_config J f p =
     (case put ''config_list'' (of_strings (pd_conf_list p)) (pd_config_json_obj p) of
        Inl x \<Rightarrow> (Inl x, f, p, [])
      | Inr obj \<Rightarrow>
          (let q = p\<lparr>pd_config_json_obj := obj\<rparr>; tmp_path = pd_config_json p @ ''.tmp'' in
           case open_trunc f tmp_path of
             (None, f1) \<Rightarrow> (Inr (-1), f1, q,
                [Log ERROR (''Could not open config file for writing: '' @ tmp_path)])
           | (Some file, f1) \<Rightarrow>
               (case j_dump J (Some 4) obj of Inl x \<Rightarrow> (Inl x, f1, q, [])
                | Inr text \<Rightarrow>
                    (let f2 = write_to f1 file (text @ [CHR 0x0A]);
                         (r, f3) = rename_file f2 tmp_path (pd_config_json p)
                     in if r \<noteq> 0
                        then (Inr (-1), f3, q, [Log ERROR (''Failed to rename '' @ tmp_path @ '' to '' @
                                pd_config_json p)])
                        else (Inr 0, f3, q, [Log INFO ''Configuration updated successfully.''])))))"

definition update_config :: "json_lib \<Rightarrow> json \<Rightarrow> fs \<Rightarrow> postdata \<Rightarrow>
    (fault + int) \<times> fs \<times> postdata \<times> effect list" where
  "update_config J j f p =
     (case j_dump J None j of Inl x \<Rightarrow> (Inl x, f, p, [])
      | Inr text \<Rightarrow>
          (let l0 = [Log INFO (''Updating configuration with JSON: '' @ text)] in
           if bad_request j
           then (Inr (-1), f, p, l0 @ [Log ERROR ''JSON must contain string fields 'conf' and 'action'.''])
           else
             (case member_string j ''conf'' of Inl x \<Rightarrow> (Inl x, f, p, l0) | Inr conf \<Rightarrow>
              (case member_string j ''action'' of Inl x \<Rightarrow> (Inl x, f, p, l0) | Inr action \<Rightarrow>
               (case edit_list action conf (pd_conf_list p) of
                  None \<Rightarrow> (Inr (-1), f, p, l0 @ [Log ERROR (''Unknown action: '' @ action)])
                | Some confs \<Rightarrow>
                    (case persist_config J f (p\<lparr>pd_conf_list := confs\<rparr>) of
                       (r, f', q, l) \<Rightarrow> (r, f', q, l0 @ l)))))))"

section \<open>The HTTP handlers\<close>

record response =
  rs_status :: int
  rs_content :: string
  rs_type :: string

definition answer :: "int \<Rightarrow> string \<Rightarrow> string \<Rightarrow> response" where
  "answer status content ctype = \<lparr>rs_status = status, rs_content = content, rs_type = ctype\<rparr>"

text \<open>A \<open>json::exception\<close> is caught; anything else would leave the handler.\<close>

definition is_json_exn :: "fault \<Rightarrow> bool" where
  "is_json_exn x \<longleftrightarrow> x = Throw Json_parse_error \<or> x = Throw Json_type_error"

definition catch_json :: "json_lib \<Rightarrow> fault \<Rightarrow> (fault + response) \<times> effect list" where
  "catch_json J x =
     (if is_json_exn x
      then (Inr (answer 400 ''Invalid JSON request'' ''text/plain''),
            [Log ERROR (''Invalid configuration update JSON: '' @ j_what J x)])
      else (Inl x, []))"

definition handle_update_config_request :: "json_lib \<Rightarrow> string \<Rightarrow> fs \<Rightarrow> postdata \<Rightarrow>
    (fault + response) \<times> fs \<times> postdata \<times> effect list" where
  "handle_update_config_request J body f p =
     (case j_parse J body of
        Inl x \<Rightarrow> (case catch_json J x of (r, l) \<Rightarrow> (r, f, p, l))
      | Inr j \<Rightarrow>
          (if bad_request j
           then (Inr (answer 400 (''JSON must contain string fields 'conf' and 'action'' @ [CHR 0x27])
                   ''text/plain''), f, p, [])
           else
             (case member_string j ''action'' of
                Inl x \<Rightarrow> (case catch_json J x of (r, l) \<Rightarrow> (r, f, p, l))
              | Inr action \<Rightarrow>
                  (if action \<noteq> ''add'' \<and> action \<noteq> ''remove''
                   then (Inr (answer 400 (CHR 0x27 # ''action' must be 'add' or 'remove'' @ [CHR 0x27])
                           ''text/plain''), f, p, [])
                   else
                     (case update_config J j f p of
                        (Inl x, f', q, l) \<Rightarrow> (case catch_json J x of (r, l') \<Rightarrow> (r, f', q, l @ l'))
                      | (Inr r, f', q, l) \<Rightarrow>
                          (if r \<noteq> 0
                           then (Inr (answer 500 ''Failed to update configuration'' ''text/plain''),
                                 f', q, l)
                           else (Inr (answer 200 ''Configuration updated successfully'' ''text/plain''),
                                 f', q, l)))))))"

text \<open>\<open>GET /filetrace\<close>; the status stays what the server preset.\<close>

definition get_filetrace :: "json_lib \<Rightarrow> postdata \<Rightarrow> response \<Rightarrow> fault + response" where
  "get_filetrace J p res =
     (let j = JObj (om_put ''conf_list'' (of_strings (pd_conf_list p)) [(''status'', JStr ''ok'')])
      in case j_dump J (Some 2) j of Inl x \<Rightarrow> Inl x
         | Inr text \<Rightarrow> Inr (res\<lparr>rs_content := text, rs_type := ''application/json''\<rparr>))"

section \<open>What a successful load reads\<close>

text \<open>\<open>passes s p q\<close>: the statement goes on, from \<open>p\<close> to \<open>q\<close>.\<close>

definition passes :: "(postdata \<Rightarrow> step_result) \<Rightarrow> postdata \<Rightarrow> postdata \<Rightarrow> bool" where
  "passes s p q \<longleftrightarrow> (\<exists>l. s p = Next q l)"

lemma passes_Nil: "passes (run_steps []) p q \<longleftrightarrow> q = p"
  by (auto simp: passes_def run_steps.simps)

lemma passes_Cons: "passes (run_steps (s # ss)) p q \<longleftrightarrow>
    (\<exists>r. passes s p r \<and> passes (run_steps ss) r q)"
  by (auto simp: passes_def run_steps.simps split: step_result.splits dest: add_effects_NextD)

lemma passes_append: "passes (run_steps (ss @ ts)) p q \<longleftrightarrow>
    (\<exists>r. passes (run_steps ss) p r \<and> passes (run_steps ts) r q)"
proof (induction ss arbitrary: p)
  case Nil
  then show ?case by (simp add: passes_Nil)
next
  case (Cons s ss)
  then show ?case by (simp only: append_Cons passes_Cons Cons) blast
qed

lemma read_ref_passes:
  assumes "pd_config_json_obj p = JObj m" and "\<And>a. conv JNull \<noteq> Inr a"
  shows "passes (read_ref key conv assign) p q \<longleftrightarrow>
    (\<exists>v a. map_of m key = Some v \<and> conv v = Inr a \<and> q = assign a p)"
proof -
  have same: "p\<lparr>pd_config_json_obj := JObj m\<rparr> = p" unfolding assms(1) [symmetric] by simp
  then show ?thesis
    using assms unfolding passes_def read_ref_def at_ref_def Let_def
    by (cases "map_of m key") (auto simp: same split: sum.splits)
qed

lemma read_value_passes: "passes (read_value key conv dflt assign) p q \<longleftrightarrow>
    (\<exists>a. value_or conv (pd_config_json_obj p) key dflt = Inr a \<and> q = assign a p)"
  by (auto simp: read_value_def passes_def split: sum.splits)

lemma reject_if_passes: "passes (reject_if bad msg) p q \<longleftrightarrow> \<not> bad p \<and> q = p"
  by (auto simp: reject_if_def passes_def)

text \<open>A member that must be positive, with its default.\<close>

definition positive_or :: "int \<Rightarrow> int \<Rightarrow> int" where
  "positive_or dflt n = (if n \<le> 0 then dflt else n)"

lemma repair_if_passes:
  "passes (repair_if (\<lambda>p. pd_max_dir_level p \<le> 0) msg (pd_max_dir_level_update (\<lambda>_. d))) p q \<longleftrightarrow>
     q = p\<lparr>pd_max_dir_level := positive_or d (pd_max_dir_level p)\<rparr>"
  "passes (repair_if (\<lambda>p. pd_cache_timeout_seconds p \<le> 0) msg (pd_cache_timeout_seconds_update (\<lambda>_. d))) p q \<longleftrightarrow>
     q = p\<lparr>pd_cache_timeout_seconds := positive_or d (pd_cache_timeout_seconds p)\<rparr>"
  "passes (repair_if (\<lambda>p. pd_max_event_queue_size p \<le> 0) msg (pd_max_event_queue_size_update (\<lambda>_. d))) p q \<longleftrightarrow>
     q = p\<lparr>pd_max_event_queue_size := positive_or d (pd_max_event_queue_size p)\<rparr>"
  by (auto simp: repair_if_def passes_def positive_or_def)

definition log_bytes :: "int \<Rightarrow> nat" where
  "log_bytes mb = (to_size mb * 1024 mod 2 ^ 64) * 1024 mod 2 ^ 64"

lemma read_log_size_passes: "passes (read_log_size J) p q \<longleftrightarrow>
    (\<exists>mb. value_or (j_int J) (pd_config_json_obj p) ''log_size'' 100 = Inr mb \<and>
       q = p\<lparr>pd_log_size := log_bytes mb\<rparr>)"
  by (auto simp: read_log_size_def log_bytes_def passes_def split: sum.splits)

definition levels_ok :: "int \<Rightarrow> string list \<Rightarrow> bool" where
  "levels_ok n confs \<longleftrightarrow> (\<forall>c \<in> set confs. 0 \<le> fst (get_dir_level c) \<and> fst (get_dir_level c) \<le> n)"

lemma check_levels_None: "fst (check_levels n confs) = None \<longleftrightarrow> levels_ok n confs"
  by (induction confs) (auto simp: levels_ok_def Let_def split: prod.splits)

lemma check_dir_levels_passes: "passes check_dir_levels p q \<longleftrightarrow>
    q = p \<and> levels_ok (pd_max_dir_level p) (pd_conf_list p)"
  using check_levels_None [of "pd_max_dir_level p" "pd_conf_list p"]
  by (auto simp: check_dir_levels_def passes_def split: prod.splits option.splits)

definition dotted_quad :: "string \<Rightarrow> bool" where
  "dotted_quad ip \<longleftrightarrow> (\<exists>a b c d. ip = a @ ''.'' @ b @ ''.'' @ c @ ''.'' @ d \<and>
     (\<forall>w \<in> {a, b, c, d}. octet w \<and> dec_val w \<le> 255))"

lemma is_valid_ip_quad: "is_valid_ip ip = Inr (dotted_quad ip)"
  unfolding dotted_quad_def by (rule is_valid_ip_eq)

lemma check_server_passes: "passes check_server p q \<longleftrightarrow> dotted_quad (pd_server p) \<and> q = p"
  by (auto simp: check_server_def is_valid_ip_quad passes_def)

lemma report_config_passes: "passes (report_config f) p q \<longleftrightarrow> q = p"
  by (auto simp: report_config_def passes_def)

lemma conv_JNull [simp]: "get_string JNull \<noteq> Inr a" "get_strings JNull \<noteq> Inr b"
  by (simp_all add: get_string_def get_strings_def)

text \<open>A list of statements passes statement by statement.\<close>

lemma read_ref_then:
  assumes "pd_config_json_obj p = JObj m" and "\<And>a. conv JNull \<noteq> Inr a"
  shows "passes (run_steps (read_ref key conv assign # ss)) p q \<longleftrightarrow>
    (\<exists>v a. map_of m key = Some v \<and> conv v = Inr a \<and> passes (run_steps ss) (assign a p) q)"
proof -
  have "passes (read_ref key conv assign) p r \<longleftrightarrow>
    (\<exists>v a. map_of m key = Some v \<and> conv v = Inr a \<and> r = assign a p)" for r
    using assms by (rule read_ref_passes)
  then show ?thesis unfolding passes_Cons by auto
qed

lemma read_value_then: "passes (run_steps (read_value key conv dflt assign # ss)) p q \<longleftrightarrow>
    (\<exists>a. value_or conv (pd_config_json_obj p) key dflt = Inr a \<and> passes (run_steps ss) (assign a p) q)"
  unfolding passes_Cons read_value_passes by blast

lemma read_log_size_then: "passes (run_steps (read_log_size J # ss)) p q \<longleftrightarrow>
    (\<exists>mb. value_or (j_int J) (pd_config_json_obj p) ''log_size'' 100 = Inr mb \<and>
       passes (run_steps ss) (p\<lparr>pd_log_size := log_bytes mb\<rparr>) q)"
  unfolding passes_Cons read_log_size_passes by blast

lemma check_then:
  "passes (run_steps (reject_if bad msg # ss)) p q \<longleftrightarrow> \<not> bad p \<and> passes (run_steps ss) p q"
  "passes (run_steps (check_dir_levels # ss)) p q \<longleftrightarrow>
     levels_ok (pd_max_dir_level p) (pd_conf_list p) \<and> passes (run_steps ss) p q"
  "passes (run_steps (check_server # ss)) p q \<longleftrightarrow> dotted_quad (pd_server p) \<and> passes (run_steps ss) p q"
  "passes (run_steps (report_config f # ss)) p q \<longleftrightarrow> passes (run_steps ss) p q"
  unfolding passes_Cons reject_if_passes check_dir_levels_passes check_server_passes
    report_config_passes by blast+

lemma repair_then:
  "passes (run_steps (repair_if (\<lambda>p. pd_max_dir_level p \<le> 0) msg (pd_max_dir_level_update (\<lambda>_. d)) # ss)) p q \<longleftrightarrow>
     passes (run_steps ss) (p\<lparr>pd_max_dir_level := positive_or d (pd_max_dir_level p)\<rparr>) q"
  "passes (run_steps (repair_if (\<lambda>p. pd_cache_timeout_seconds p \<le> 0) msg
       (pd_cache_timeout_seconds_update (\<lambda>_. d)) # ss)) p q \<longleftrightarrow>
     passes (run_steps ss) (p\<lparr>pd_cache_timeout_seconds := positive_or d (pd_cache_timeout_seconds p)\<rparr>) q"
  "passes (run_steps (repair_if (\<lambda>p. pd_max_event_queue_size p \<le> 0) msg
       (pd_max_event_queue_size_update (\<lambda>_. d)) # ss)) p q \<longleftrightarrow>
     passes (run_steps ss) (p\<lparr>pd_max_event_queue_size := positive_or d (pd_max_event_queue_size p)\<rparr>) q"
  unfolding passes_Cons repair_if_passes by simp_all

lemmas statements_pass = read_value_then read_log_size_then check_then repair_then passes_Nil

text \<open>The three groups of statements, on an object whose JSON is an object.\<close>

lemma path_steps_pass:
  assumes "pd_config_json_obj p = JObj m"
  shows "passes (run_steps (path_steps J)) p q \<longleftrightarrow>
    (\<exists>v cl lvl lf mb n. map_of m ''config_list'' = Some v \<and> get_strings v = Inr cl \<and> cl \<noteq> [] \<and>
       value_or get_string (JObj m) ''log_level'' ''info'' = Inr lvl \<and>
       value_or get_string (JObj m) ''log_file'' ''/var/log/filetrace.log'' = Inr lf \<and>
       value_or (j_int J) (JObj m) ''log_size'' 100 = Inr mb \<and>
       value_or (j_int J) (JObj m) ''max_dir_level'' 4 = Inr n \<and>
       levels_ok (positive_or 4 n) cl \<and>
       q = p\<lparr>pd_conf_list := cl, pd_log_level := lvl, pd_log_file := lf, pd_log_size := log_bytes mb,
             pd_max_dir_level := (positive_or 4 n)\<rparr>)"
  unfolding path_steps_def
  by (simp add: statements_pass read_ref_then [where m = m] assms)

lemma host_steps_pass:
  assumes "pd_config_json_obj p = JObj m"
  shows "passes (run_steps host_steps) p q \<longleftrightarrow>
    (\<exists>v1 hid v2 dom cid v3 rag v4 skips. map_of m ''host_id'' = Some v1 \<and> get_string v1 = Inr hid \<and> hid \<noteq> [] \<and>
       map_of m ''domain_name'' = Some v2 \<and> get_string v2 = Inr dom \<and> dom \<noteq> [] \<and>
       value_or get_string (JObj m) ''cluster_id'' [] = Inr cid \<and>
       map_of m ''ragdoll_api'' = Some v3 \<and> get_string v3 = Inr rag \<and>
       map_of m ''skip_processes_list'' = Some v4 \<and> get_strings v4 = Inr skips \<and>
       q = p\<lparr>pd_host_id := hid, pd_domain_name := dom, pd_cluster_id := cid, pd_ragdoll_api := rag,
             pd_skip_processes := skips\<rparr>)"
  unfolding host_steps_def by (simp add: statements_pass read_ref_then [where m = m] assms)

lemma service_steps_pass:
  assumes "pd_config_json_obj p = JObj m"
  shows "passes (run_steps (service_steps J)) p q \<longleftrightarrow>
    (\<exists>pub cache srv port addr t k. value_or get_bool (JObj m) ''publish'' False = Inr pub \<and>
       value_or get_bool (JObj m) ''cache_data'' False = Inr cache \<and>
       value_or get_string (JObj m) ''server'' ''0.0.0.0'' = Inr srv \<and> dotted_quad srv \<and>
       value_or (j_int J) (JObj m) ''port'' 8080 = Inr port \<and>
       value_or get_string (JObj m) ''exporter_address'' ''0.0.0.0:8080'' = Inr addr \<and>
       value_or (j_int J) (JObj m) ''cache_timeout_seconds'' 30 = Inr t \<and>
       value_or (j_int J) (JObj m) ''max_event_queue_size'' 1000 = Inr k \<and>
       q = p\<lparr>pd_publish := pub, pd_cache_data := cache, pd_server := srv, pd_port := port,
             pd_exporter_address := addr, pd_cache_timeout_seconds := positive_or 30 t,
             pd_max_event_queue_size := positive_or 1000 k\<rparr>)"
  unfolding service_steps_def by (simp add: statements_pass read_ref_then [where m = m] assms)

text \<open>The members a load sets, read off the members of the JSON object.\<close>

definition string_at :: "(string \<times> json) list \<Rightarrow> string \<Rightarrow> string \<Rightarrow> bool" where
  "string_at m key s \<longleftrightarrow> (\<exists>v. map_of m key = Some v \<and> get_string v = Inr s)"

definition strings_at :: "(string \<times> json) list \<Rightarrow> string \<Rightarrow> string list \<Rightarrow> bool" where
  "strings_at m key ss \<longleftrightarrow> (\<exists>v. map_of m key = Some v \<and> get_strings v = Inr ss)"

definition reads :: "json_lib \<Rightarrow> (string \<times> json) list \<Rightarrow> postdata \<Rightarrow> bool" where
  "reads J m q \<longleftrightarrow>
     strings_at m ''config_list'' (pd_conf_list q) \<and>
     value_or get_string (JObj m) ''log_level'' ''info'' = Inr (pd_log_level q) \<and>
     value_or get_string (JObj m) ''log_file'' ''/var/log/filetrace.log'' = Inr (pd_log_file q) \<and>
     (\<exists>mb. value_or (j_int J) (JObj m) ''log_size'' 100 = Inr mb \<and> pd_log_size q = log_bytes mb) \<and>
     (\<exists>n. value_or (j_int J) (JObj m) ''max_dir_level'' 4 = Inr n \<and>
        pd_max_dir_level q = positive_or 4 n) \<and>
     string_at m ''host_id'' (pd_host_id q) \<and> string_at m ''domain_name'' (pd_domain_name q) \<and>
     value_or get_string (JObj m) ''cluster_id'' [] = Inr (pd_cluster_id q) \<and>
     string_at m ''ragdoll_api'' (pd_ragdoll_api q) \<and>
     strings_at m ''skip_processes_list'' (pd_skip_processes q) \<and>
     value_or get_bool (JObj m) ''publish'' False = Inr (pd_publish q) \<and>
     value_or get_bool (JObj m) ''cache_data'' False = Inr (pd_cache_data q) \<and>
     value_or get_string (JObj m) ''server'' ''0.0.0.0'' = Inr (pd_server q) \<and>
     value_or (j_int J) (JObj m) ''port'' 8080 = Inr (pd_port q) \<and>
     value_or get_string (JObj m) ''exporter_address'' ''0.0.0.0:8080'' = Inr (pd_exporter_address q) \<and>
     (\<exists>t. value_or (j_int J) (JObj m) ''cache_timeout_seconds'' 30 = Inr t \<and>
        pd_cache_timeout_seconds q = positive_or 30 t) \<and>
     (\<exists>k. value_or (j_int J) (JObj m) ''max_event_queue_size'' 1000 = Inr k \<and>
        pd_max_event_queue_size q = positive_or 1000 k)"

text \<open>What the checks of a load guarantee of the object.\<close>

definition config_ok :: "postdata \<Rightarrow> bool" where
  "config_ok q \<longleftrightarrow> pd_conf_list q \<noteq> [] \<and> levels_ok (pd_max_dir_level q) (pd_conf_list q) \<and>
     pd_host_id q \<noteq> [] \<and> pd_domain_name q \<noteq> [] \<and> dotted_quad (pd_server q)"

text \<open>The members a load never touches.\<close>

definition outside_config :: "postdata \<Rightarrow> string \<times> bool \<times> string \<times> exporter option \<times> int \<times> json list \<times> bool"
  where
  "outside_config p = (pd_config_json p, pd_verbose p, pd_monitor_file_path p, pd_exporter p,
     pd_exec_map_fd p, pd_event_queue p, pd_skel p)"

lemma read_config_then: "passes (run_steps (read_config J text # ss)) p q \<longleftrightarrow>
    (\<exists>v. j_read J text = Inr v \<and> passes (run_steps ss) (p\<lparr>pd_config_json_obj := v\<rparr>) q)"
  unfolding passes_Cons
  by (auto simp: read_config_def passes_def split: sum.splits)

lemma path_steps_need_object: "passes (run_steps (path_steps J)) p q \<Longrightarrow> \<exists>m. pd_config_json_obj p = JObj m"
  unfolding path_steps_def passes_Cons
  by (auto simp: passes_def read_ref_def at_ref_def Let_def split: json.splits sum.splits)

lemma load_steps_pass: "passes (run_steps (load_steps J text f)) p q \<longleftrightarrow>
    (\<exists>m. j_read J text = Inr (JObj m) \<and> pd_config_json_obj q = JObj m \<and> reads J m q \<and> config_ok q \<and>
       outside_config q = outside_config p)"
  (is "?L \<longleftrightarrow> ?R")
proof
  assume ?L
  then obtain v r s t where v: "j_read J text = Inr v"
    and r: "passes (run_steps (path_steps J)) (p\<lparr>pd_config_json_obj := v\<rparr>) r"
    and s: "passes (run_steps host_steps) r s" and t: "passes (run_steps (service_steps J)) s q"
    unfolding load_steps_def read_config_then by (auto simp: passes_append check_then passes_Nil)
  from path_steps_need_object [OF r] obtain m where m: "v = JObj m" by auto
  have obj: "pd_config_json_obj r = JObj m" using r m by (auto simp: path_steps_pass [where m = m])
  have obj': "pd_config_json_obj s = JObj m" using s obj by (auto simp: host_steps_pass [where m = m])
  show ?R
    using v r s t m obj obj'
    by (auto simp: path_steps_pass [where m = m] host_steps_pass [where m = m]
        service_steps_pass [where m = m] reads_def config_ok_def outside_config_def string_at_def
        strings_at_def)
next
  assume ?R
  then obtain m where m: "j_read J text = Inr (JObj m)" "pd_config_json_obj q = JObj m" "reads J m q"
    "config_ok q" "outside_config q = outside_config p" by blast
  let ?p = "p\<lparr>pd_config_json_obj := JObj m\<rparr>"
  let ?r = "?p\<lparr>pd_conf_list := pd_conf_list q, pd_log_level := pd_log_level q,
    pd_log_file := pd_log_file q, pd_log_size := pd_log_size q, pd_max_dir_level := pd_max_dir_level q\<rparr>"
  let ?s = "?r\<lparr>pd_host_id := pd_host_id q, pd_domain_name := pd_domain_name q,
    pd_cluster_id := pd_cluster_id q, pd_ragdoll_api := pd_ragdoll_api q,
    pd_skip_processes := pd_skip_processes q\<rparr>"
  have "passes (run_steps (path_steps J)) ?p ?r"
    using m(3,4) by (subst path_steps_pass [where m = m])
      (auto simp: reads_def config_ok_def strings_at_def)
  moreover have "passes (run_steps host_steps) ?r ?s"
    using m(3,4) by (subst host_steps_pass [where m = m])
      (auto simp: reads_def config_ok_def string_at_def strings_at_def)
  moreover have "q = ?s\<lparr>pd_publish := pd_publish q, pd_cache_data := pd_cache_data q,
    pd_server := pd_server q, pd_port := pd_port q, pd_exporter_address := pd_exporter_address q,
    pd_cache_timeout_seconds := pd_cache_timeout_seconds q,
    pd_max_event_queue_size := pd_max_event_queue_size q\<rparr>"
    using m(2,5) by (intro postdata.equality) (simp_all add: outside_config_def)
  then have "passes (run_steps (service_steps J)) ?s q"
    using m(3,4) by (subst service_steps_pass [where m = m]) (auto simp: reads_def config_ok_def)
  ultimately show ?L
    unfolding load_steps_def read_config_then using m(1)
    by (auto simp: passes_append check_then passes_Nil)
qed

end
