(* ===== verification/Reload.thy ===== *)
theory Reload
  imports Config
begin

text \<open>
  What loading and updating the configuration guarantee: which objects a successful load leaves,
  what an update does to the file on disk, and that a load after an update reads back the object
  in memory.
\<close>

section \<open>How a load ends\<close>

definition throws :: "fault \<Rightarrow> bool" where
  "throws x \<longleftrightarrow> x \<noteq> Undefined_behaviour"

definition safe_conv :: "(json \<Rightarrow> fault + 'a) \<Rightarrow> bool" where
  "safe_conv conv \<longleftrightarrow> (\<forall>v x. conv v = Inl x \<longrightarrow> throws x)"

lemma strings_of_throws: "strings_of vs = Inl x \<Longrightarrow> throws x"
  by (induction vs) (auto simp: get_string_def throws_def split: sum.splits json.splits)

lemma safe_convs [simp]: "safe_conv get_string" "safe_conv get_strings" "safe_conv get_bool"
  by (auto simp: safe_conv_def get_string_def get_strings_def get_bool_def throws_def
      split: json.splits dest: strings_of_throws)

lemma safe_conv_int: "json_ok J \<Longrightarrow> safe_conv (j_int J)"
  by (auto simp: safe_conv_def throws_def dest: json_ok_int(3))

abbreviation ends_well :: "step_result \<Rightarrow> bool" where
  "ends_well \<equiv> ends_in (\<lambda>_. True) (\<lambda>r. r = -1) throws"

lemma value_or_throws: "safe_conv conv \<Longrightarrow> value_or conv obj key dflt = Inl x \<Longrightarrow> throws x"
  by (auto simp: value_or_def safe_conv_def throws_def split: json.splits option.splits)

lemma statements_end_well:
  "safe_conv conv \<Longrightarrow> ends_well (read_ref key conv assign p)"
  "safe_conv conv \<Longrightarrow> ends_well (read_value key conv dflt assign' p)"
  "ends_well (reject_if bad msg p)" "ends_well (repair_if bad msg' assign'' p)"
  "ends_well (check_dir_levels p)" "ends_well (check_server p)" "ends_well (report_config f p)"
  by (auto simp: read_ref_def read_value_def at_ref_def throws_def safe_conv_def reject_if_def
      repair_if_def check_dir_levels_def check_server_def is_valid_ip_quad report_config_def Let_def
      split: json.splits option.splits sum.splits prod.splits
      dest: value_or_throws [unfolded throws_def safe_conv_def, rotated])

lemma json_steps_end_well:
  assumes "json_ok J"
  shows "ends_well (read_log_size J p)" and "ends_well (read_config J content p)"
  using assms value_or_throws [OF safe_conv_int [OF assms]] json_ok_parse(4) [OF assms, of content]
  by (auto simp: read_log_size_def read_config_def throws_def split: sum.splits)

lemma load_steps_end_well:
  assumes "json_ok J"
  shows "ends_well (run_steps (load_steps J content f) p)"
proof (rule run_steps_ends_in)
  fix s q
  assume "s \<in> set (load_steps J content f)"
  then show "ends_well (s q)"
    by (auto simp: load_steps_def path_steps_def host_steps_def service_steps_def
        intro: statements_end_well json_steps_end_well [OF assms] safe_conv_int [OF assms])
qed simp

lemma load_config_cases:
  assumes "json_ok J"
  shows "fst (load_config J f path p) \<in> {Inr 0, Inr (-1)}"
proof (cases "read_file f path")
  case (Some content)
  with load_steps_end_well [OF assms, of content path p] show ?thesis
    by (cases "run_steps (load_steps J content path) p")
      (auto simp: load_config_def Let_def throws_def split: fault.splits)
qed (simp add: load_config_def)

lemma load_config_zero:
  assumes "json_ok J"
  shows "(\<exists>l. load_config J f path p = (Inr 0, q, l)) \<longleftrightarrow>
    (\<exists>content m. read_file f path = Some content \<and> j_read J content = Inr (JObj m) \<and>
       pd_config_json_obj q = JObj m \<and> reads J m q \<and> config_ok q \<and> outside_config q = outside_config p)"
proof (cases "read_file f path")
  case (Some content)
  have "(\<exists>l. load_config J f path p = (Inr 0, q, l)) \<longleftrightarrow> passes (run_steps (load_steps J content path)) p q"
    using load_steps_end_well [OF assms, of content path p] Some
    by (cases "run_steps (load_steps J content path) p")
      (auto simp: load_config_def Let_def passes_def split: fault.splits)
  then show ?thesis unfolding load_steps_pass using Some by auto
qed (simp add: load_config_def)

lemma reads_positive:
  assumes "json_ok J" and "reads J m q"
  shows "0 < pd_max_dir_level q" and "0 < pd_cache_timeout_seconds q" and "0 < pd_max_event_queue_size q"
    and "pd_max_event_queue_size q < 2 ^ 31"
proof -
  have "value_or (j_int J) (JObj m) key 1000 = Inr n \<Longrightarrow> n < 2 ^ 31" for key n
    using json_ok_int(2) [OF assms(1)] by (auto simp: value_or_def split: option.splits)
  with assms(2) show "pd_max_event_queue_size q < 2 ^ 31"
    by (force simp: reads_def positive_or_def)
  show "0 < pd_max_dir_level q" and "0 < pd_cache_timeout_seconds q" and "0 < pd_max_event_queue_size q"
    using assms(2) by (auto simp: reads_def positive_or_def)
qed

section \<open>What an update does\<close>

lemma fs_perm [frame_rules]:
  "open_trunc f n = (h, f') \<Longrightarrow> fs_may_open f' = fs_may_open f"
  "fs_may_open (write_to f i s) = fs_may_open f"
  "rename_file f a b = (r, f') \<Longrightarrow> fs_may_open f' = fs_may_open f"
  by (auto simp: open_trunc_def create_file_def write_to_def rename_file_def
      split: if_splits option.splits)

definition updated_obj :: "string list \<Rightarrow> (string \<times> json) list \<Rightarrow> json" where
  "updated_obj confs m = JObj (om_put ''config_list'' (of_strings confs) m)"

text \<open>The configuration is written in full under its own name, or its file is left alone.\<close>

definition saved :: "json_lib \<Rightarrow> fs \<Rightarrow> fs \<Rightarrow> postdata \<Rightarrow> bool" where
  "saved J f f' q \<longleftrightarrow> (\<exists>doc. j_dump J (Some 4) (pd_config_json_obj q) = Inr doc \<and>
     contents f' = (contents f)(pd_config_json q @ ''.tmp'' := None,
       pd_config_json q \<mapsto> take (fs_room f) (doc @ [CHR 0x0A])))"

definition untouched :: "fs \<Rightarrow> fs \<Rightarrow> postdata \<Rightarrow> bool" where
  "untouched f f' q \<longleftrightarrow> (\<forall>n. n \<noteq> pd_config_json q @ ''.tmp'' \<longrightarrow> contents f' n = contents f n)"

lemma persist_config_cases:
  assumes wf: "fs_wf f" and m: "pd_config_json_obj p = JObj m"
    and run: "persist_config J f p = (r, f', q, l)"
  shows "q = p\<lparr>pd_config_json_obj := updated_obj (pd_conf_list p) m\<rparr> \<and> fs_may_open f' = fs_may_open f \<and>
    (r = Inr 0 \<and> saved J f f' q \<or>
     (r = Inr (-1) \<or> (\<exists>x. r = Inl x \<and> j_dump J (Some 4) (updated_obj (pd_conf_list p) m) = Inl x)) \<and> untouched f f' q)"
proof -
  let ?q = "p\<lparr>pd_config_json_obj := updated_obj (pd_conf_list p) m\<rparr>" and ?tmp = "pd_config_json p @ ''.tmp''"
  have put: "put ''config_list'' (of_strings (pd_conf_list p)) (pd_config_json_obj p) = Inr (updated_obj (pd_conf_list p) m)"
    by (simp add: put_def m updated_obj_def)
  obtain h f1 where o: "open_trunc f ?tmp = (h, f1)" by fastforce
  show ?thesis
  proof (cases h)
    case None
    then have "f1 = f" using o open_fail(1) by simp
    then show ?thesis using run put o None by (auto simp: persist_config_def untouched_def)
  next
    case (Some i)
    have o': "open_trunc f ?tmp = (Some i, f1)" using o Some by simp
    show ?thesis
    proof (cases "j_dump J (Some 4) (updated_obj (pd_conf_list p) m)")
      case (Inl x)
      from store.trunc_ok [OF wf o'] have "untouched f f1 ?q" by (simp add: untouched_def)
      then show ?thesis
        using run put o' Inl fs_perm(1) [OF o] by (auto simp: persist_config_def)
    next
      case (Inr doc)
      obtain k f3 where mv: "rename_file (write_to f1 i (doc @ [CHR 0x0A])) ?tmp (pd_config_json p) = (k, f3)"
        by fastforce
      have perm: "fs_may_open f3 = fs_may_open f"
        using fs_perm(1) [OF o] fs_perm(3) [OF mv] by (simp add: fs_perm(2))
      have res: "(r, f', q) = (if k \<noteq> 0 then Inr (-1) else Inr 0, f3, ?q)"
        using run put o' Inr mv by (auto simp: persist_config_def Let_def split: if_splits)
      show ?thesis
      proof (cases "k = 0")
        case True
        with store.saved_through_tmp [OF wf o'] mv
        have "contents f3 = (contents f)(?tmp := None, pd_config_json p \<mapsto> take (fs_room f) (doc @ [CHR 0x0A]))"
          by simp
        then show ?thesis using res True perm Inr by (auto simp: saved_def)
      next
        case False
        with store.target_kept_on_failure [OF wf o' mv] have "untouched f f3 ?q"
          by (auto simp: untouched_def)
        then show ?thesis using res False perm by auto
      qed
    qed
  qed
qed

text \<open>A request that \<open>update_config\<close> acts on.\<close>

definition good_request :: "json \<Rightarrow> string \<Rightarrow> string \<Rightarrow> bool" where
  "good_request j conf action \<longleftrightarrow> (\<exists>m. j = JObj m \<and> map_of m ''conf'' = Some (JStr conf) \<and>
     map_of m ''action'' = Some (JStr action))"

lemma good_request_members:
  assumes "good_request j conf action"
  shows "\<not> bad_request j" and "member_string j ''conf'' = Inr conf" and "member_string j ''action'' = Inr action"
  using assms by (auto simp: good_request_def bad_request_def is_object_def contains_def
      member_is_string_def member_string_def at_const_def is_string_def)

lemma not_bad_request: "\<not> bad_request j \<longleftrightarrow> (\<exists>conf action. good_request j conf action)"
proof
  assume "\<not> bad_request j"
  then show "\<exists>conf action. good_request j conf action"
    by (auto simp: good_request_def bad_request_def is_object_def contains_def
        member_is_string_def at_const_def is_string_def split: json.splits)
qed (auto dest: good_request_members(1))

lemma update_config_good:
  assumes "j_dump J None j = Inr doc" and "good_request j conf action"
  shows "edit_list action conf (pd_conf_list p) = None \<Longrightarrow>
      \<exists>l. update_config J j f p = (Inr (-1), f, p, l)"
    and "edit_list action conf (pd_conf_list p) = Some confs \<Longrightarrow>
      persist_config J f (p\<lparr>pd_conf_list := confs\<rparr>) = (r, f', q, l) \<Longrightarrow>
      \<exists>l. update_config J j f p = (r, f', q, l)"
  using assms good_request_members [OF assms(2)] by (simp_all add: update_config_def)

lemma update_config_bad:
  "j_dump J None j = Inr doc \<Longrightarrow> bad_request j \<Longrightarrow> \<exists>l. update_config J j f p = (Inr (-1), f, p, l)"
  by (simp add: update_config_def)

lemma update_config_cases:
  assumes J: "json_ok J" and wf: "fs_wf f" and m: "pd_config_json_obj p = JObj m"
    and run: "update_config J j f p = (r, f', q, l)"
  shows "(\<exists>conf action confs. good_request j conf action \<and>
      edit_list action conf (pd_conf_list p) = Some confs \<and>
      q = p\<lparr>pd_conf_list := confs, pd_config_json_obj := updated_obj confs m\<rparr> \<and>
      fs_may_open f' = fs_may_open f \<and>
      (r = Inr 0 \<and> saved J f f' q \<or>
       (r = Inr (-1) \<or> r = Inl (Throw Json_type_error)) \<and> untouched f f' q)) \<or>
    (r = Inr (-1) \<or> r = Inl (Throw Json_type_error)) \<and> q = p \<and> f' = f"
proof (cases "j_dump J None j")
  case (Inl x)
  then have "x = Throw Json_type_error" using json_ok_dump(1,2) [OF J, of j None] by fastforce
  then show ?thesis using run Inl by (simp add: update_config_def)
next
  case (Inr doc)
  show ?thesis
  proof (cases "bad_request j")
    case True
    with update_config_bad [OF Inr True, of f p] run show ?thesis by auto
  next
    case False
    then obtain conf action where g: "good_request j conf action" using not_bad_request by blast
    show ?thesis
    proof (cases "edit_list action conf (pd_conf_list p)")
      case None
      with update_config_good(1) [OF Inr g None, of f] run show ?thesis by auto
    next
      case (Some confs)
      obtain r1 f1 q1 l1 where P: "persist_config J f (p\<lparr>pd_conf_list := confs\<rparr>) = (r1, f1, q1, l1)"
        by (metis prod_cases4)
      have same: "r1 = r" "f1 = f'" "q1 = q" using update_config_good(2) [OF Inr g Some P] run by auto
      have "j_dump J (Some 4) v = Inl x \<Longrightarrow> x = Throw Json_type_error" for v x
        using json_ok_dump(1,2) [OF J, of v "Some 4"] by fastforce
      moreover have "pd_config_json_obj (p\<lparr>pd_conf_list := confs\<rparr>) = JObj m" using m by simp
      note persist_config_cases [OF wf this P]
      ultimately have "q = p\<lparr>pd_conf_list := confs, pd_config_json_obj := updated_obj confs m\<rparr> \<and>
        fs_may_open f' = fs_may_open f \<and>
        (r = Inr 0 \<and> saved J f f' q \<or>
         (r = Inr (-1) \<or> r = Inl (Throw Json_type_error)) \<and> untouched f f' q)"
        unfolding same by auto
      with g Some show ?thesis by blast
    qed
  qed
qed

lemma set_om_put: "set (om_put k v m) \<subseteq> insert (k, v) (set m)"
  by (induction k v m rule: om_put.induct) auto

lemma updated_obj_wf:
  assumes "json_wf (JObj m)"
  shows "json_wf (updated_obj confs m)"
proof -
  have "json_wf (of_strings ss)" for ss by (simp add: of_strings_def)
  then show ?thesis
    using assms set_om_put [of "''config_list''" "of_strings confs" m]
    by (fastforce simp: updated_obj_def)
qed

lemma updated_obj_utf8:
  assumes "json_utf8 (JObj m)" and "\<And>c. c \<in> set confs \<Longrightarrow> strict_utf8 c"
  shows "json_utf8 (updated_obj confs m)"
proof -
  have "strict_utf8 ''config_list''" by (simp add: strict_utf8_ascii ascii_def byte_of_def)
  moreover have "json_utf8 (of_strings confs)" using assms(2) by (simp add: of_strings_def)
  ultimately show ?thesis
    using assms(1) set_om_put [of "''config_list''" "of_strings confs" m]
    by (fastforce simp: updated_obj_def)
qed

lemma reads_updated:
  assumes "reads J m q"
  shows "reads J (om_put ''config_list'' (of_strings cl) m) (q\<lparr>pd_conf_list := cl, pd_config_json_obj := obj\<rparr>)"
  using assms by (simp add: reads_def string_at_def strings_at_def value_or_def)

section \<open>The update request\<close>

text \<open>The list of paths a request asks for; \<open>None\<close> when it asks for nothing.\<close>

definition wanted :: "json_lib \<Rightarrow> string \<Rightarrow> string list \<Rightarrow> string list option" where
  "wanted J body confs =
     (case j_parse J body of
        Inr (JObj m) \<Rightarrow>
          (case (map_of m ''conf'', map_of m ''action'') of
             (Some (JStr conf), Some (JStr action)) \<Rightarrow>
               (if action = ''add'' then Some (confs @ [conf])
                else if action = ''remove'' then Some [c \<leftarrow> confs. c \<noteq> conf]
                else None)
           | _ \<Rightarrow> None)
      | _ \<Rightarrow> None)"

lemma wanted_Some:
  assumes "j_parse J body = Inr j" and "good_request j conf action"
  shows "wanted J body confs = edit_list action conf confs"
  using assms by (auto simp: wanted_def good_request_def edit_list_def)

lemma wanted_None:
  assumes "j_parse J body = Inr j" and "bad_request j"
  shows "wanted J body confs = None"
  using assms by (auto simp: wanted_def bad_request_def is_object_def contains_def member_is_string_def
      at_const_def is_string_def split: json.splits option.splits)

lemma edit_list_None: "edit_list action conf confs = None \<longleftrightarrow> action \<noteq> ''add'' \<and> action \<noteq> ''remove''"
  by (simp add: edit_list_def)

lemma edit_list_strings:
  "edit_list action conf confs = Some confs' \<Longrightarrow> set confs' \<subseteq> insert conf (set confs)"
  by (auto simp: edit_list_def split: if_splits)

definition utf8_object :: "postdata \<Rightarrow> (string \<times> json) list \<Rightarrow> bool" where
  "utf8_object p m \<longleftrightarrow> pd_config_json_obj p = JObj m \<and> json_utf8 (JObj m) \<and>
     (\<forall>c \<in> set (pd_conf_list p). strict_utf8 c)"

lemma good_request_utf8: "json_utf8 j \<Longrightarrow> good_request j conf action \<Longrightarrow> strict_utf8 conf"
  by (fastforce simp: good_request_def dest: map_of_SomeD)

lemma persist_config_ok:
  assumes "put ''config_list'' (of_strings (pd_conf_list p)) (pd_config_json_obj p) = Inr obj"
    and "j_dump J (Some 4) obj = Inr doc" and "can_open f (pd_config_json p @ ''.tmp'')"
    and "fs_may_rename f (pd_config_json p @ ''.tmp'') (pd_config_json p)"
  shows "\<exists>f' q l. persist_config J f p = (Inr 0, f', q, l)"
proof -
  obtain h f1 where o: "open_trunc f (pd_config_json p @ ''.tmp'') = (h, f1)" by fastforce
  then obtain i where i: "h = Some i" "fs_names f1 (pd_config_json p @ ''.tmp'') = Some i"
    "fs_may_rename f1 = fs_may_rename f"
  proof (cases "fs_names f (pd_config_json p @ ''.tmp'')")
    case (Some k)
    with o assms(3) have "h = Some k" "f1 = f\<lparr>fs_data := (fs_data f)(k := [])\<rparr>"
      by (simp_all add: open_trunc_def)
    with Some that [of k] show ?thesis by simp
  next
    case None
    with o assms(3) have "h = Some (fs_next f)" "f1 = snd (create_file f (pd_config_json p @ ''.tmp''))"
      by (auto simp: open_trunc_def create_file_def)
    with that [of "fs_next f"] show ?thesis by (simp add: create_file_def)
  qed
  show ?thesis
    using assms o i by (simp add: persist_config_def Let_def rename_file_def write_to_def)
qed

text \<open>Saving succeeds exactly when the temporary file can be opened and renamed.\<close>

definition can_save :: "fs \<Rightarrow> postdata \<Rightarrow> bool" where
  "can_save f p \<longleftrightarrow> can_open f (pd_config_json p @ ''.tmp'') \<and>
     fs_may_rename f (pd_config_json p @ ''.tmp'') (pd_config_json p)"

lemma persist_config_zero:
  assumes "put ''config_list'' (of_strings (pd_conf_list p)) (pd_config_json_obj p) = Inr obj"
    and "j_dump J (Some 4) obj = Inr doc" and "persist_config J f p = (r, f', q, l)"
  shows "r = Inr 0 \<longleftrightarrow> can_save f p"
proof
  assume "can_save f p"
  then show "r = Inr 0" using persist_config_ok [OF assms(1,2), of f] assms(3) by (auto simp: can_save_def)
next
  assume r: "r = Inr 0"
  obtain h f1 where o: "open_trunc f (pd_config_json p @ ''.tmp'') = (h, f1)" by fastforce
  then have "fs_may_rename f1 = fs_may_rename f" "h \<noteq> None \<Longrightarrow> can_open f (pd_config_json p @ ''.tmp'')"
    by (auto simp: open_trunc_def create_file_def split: if_splits option.splits)
  then show "can_save f p"
    using assms o r by (cases h) (auto simp: persist_config_def can_save_def Let_def rename_file_def write_to_def
        split: if_splits)
qed

lemma update_request_cases:
  assumes J: "json_ok J" and wf: "fs_wf f" and obj: "utf8_object p m"
    and run: "handle_update_config_request J body f p = (r, f', q, l)"
  shows "\<exists>rs. r = Inr rs \<and> (case wanted J body (pd_conf_list p) of
      None \<Rightarrow> rs_status rs = 400 \<and> q = p \<and> f' = f
    | Some confs \<Rightarrow> q = p\<lparr>pd_conf_list := confs, pd_config_json_obj := updated_obj confs m\<rparr> \<and>
        (if can_save f p then rs_status rs = 200 \<and> saved J f f' q else rs_status rs = 500 \<and> untouched f f' q))"
proof (cases "j_parse J body")
  case (Inl x)
  then have "x = Throw Json_parse_error" by (rule json_ok_parse(1) [OF J])
  with Inl run show ?thesis
    by (auto simp: handle_update_config_request_def wanted_def catch_json_def is_json_exn_def answer_def)
next
  case (Inr j)
  show ?thesis
  proof (cases "bad_request j")
    case True
    with Inr run wanted_None [OF Inr True] show ?thesis
      by (auto simp: handle_update_config_request_def answer_def)
  next
    case False
    then obtain conf action where g: "good_request j conf action" using not_bad_request by blast
    note mem = good_request_members [OF g] and want = wanted_Some [OF Inr g]
    show ?thesis
    proof (cases "edit_list action conf (pd_conf_list p)")
      case None
      then have "action \<noteq> ''add''" "action \<noteq> ''remove''" by (simp_all add: edit_list_None)
      then show ?thesis
        using Inr run mem want None by (auto simp: handle_update_config_request_def answer_def)
    next
      case (Some confs)
      then have act: "\<not> (action \<noteq> ''add'' \<and> action \<noteq> ''remove'')" by (auto simp: edit_list_def split: if_splits)
      obtain r1 f1 q1 l1 where P: "persist_config J f (p\<lparr>pd_conf_list := confs\<rparr>) = (r1, f1, q1, l1)"
        by (metis prod_cases4)
      have ju: "json_utf8 j" by (rule json_ok_parse(3) [OF J Inr])
      from json_ok_dump(2) [OF J ju] obtain doc where "j_dump J None j = Inr doc" by blast
      from update_config_good(2) [OF this g Some P] obtain l2 where
        U: "update_config J j f p = (r1, f1, q1, l2)" by blast
      have "json_utf8 (updated_obj confs m)"
        using obj good_request_utf8 [OF ju g] edit_list_strings [OF Some]
        by (intro updated_obj_utf8) (auto simp: utf8_object_def)
      then obtain out where out: "j_dump J (Some 4) (updated_obj confs m) = Inr out"
        using json_ok_dump(2) [OF J] by blast
      then have nd: "j_dump J (Some 4) (updated_obj confs m) \<noteq> Inl x" for x by simp
      have "pd_config_json_obj (p\<lparr>pd_conf_list := confs\<rparr>) = JObj m" using obj by (simp add: utf8_object_def)
      note persist_config_cases [OF wf this P]
      moreover from obj have "put ''config_list'' (of_strings (pd_conf_list (p\<lparr>pd_conf_list := confs\<rparr>)))
          (pd_config_json_obj (p\<lparr>pd_conf_list := confs\<rparr>)) = Inr (updated_obj confs m)"
        by (simp add: put_def utf8_object_def updated_obj_def)
      from persist_config_zero [OF this out P] have "r1 = Inr 0 \<longleftrightarrow> can_save f p" by (simp add: can_save_def)
      ultimately show ?thesis
        using nd Inr run mem want Some act U by (auto simp: handle_update_config_request_def answer_def)
    qed
  qed
qed

text \<open>A request that adds or removes a path succeeds when the configuration can be saved.\<close>

lemma update_request_succeeds:
  assumes "json_ok J" and "fs_wf f" and "utf8_object p m"
    and "j_parse J body = Inr j" and "good_request j conf action"
    and "edit_list action conf (pd_conf_list p) = Some confs" and "can_save f p"
  shows "\<exists>rs f' l. handle_update_config_request J body f p = (Inr rs, f',
      p\<lparr>pd_conf_list := confs, pd_config_json_obj := updated_obj confs m\<rparr>, l) \<and> rs_status rs = 200 \<and>
    saved J f f' (p\<lparr>pd_conf_list := confs, pd_config_json_obj := updated_obj confs m\<rparr>)"
proof -
  obtain r f' q l where run: "handle_update_config_request J body f p = (r, f', q, l)" by (metis prod_cases4)
  from update_request_cases [OF assms(1-3) run] wanted_Some [OF assms(4,5)] assms(6,7) run
  show ?thesis by auto
qed

section \<open>A sample configuration\<close>

definition sample_doc :: string where
  "sample_doc = dec_of_nat (to_nat (JObj sample_members))"

definition sample_fs :: "nat \<Rightarrow> fs" where
  "sample_fs room = \<lparr>fs_names = [sample_path \<mapsto> 0], fs_data = (\<lambda>_. sample_doc), fs_next = 1,
     fs_dirs = [''/etc''], fs_may_open = (\<lambda>_. True), fs_may_rename = (\<lambda>_ _. True),
     fs_may_mkdir = (\<lambda>_. True), fs_room = room\<rparr>"

lemma sample_wf: "json_wf (JObj sample_members)" "fs_wf (sample_fs room)"
  by (simp_all add: sample_members_def of_strings_def om_wf_def less_char_def fs_wf_def sample_fs_def)

lemma sample_utf8: "json_utf8 (JObj sample_members)"
  by (simp add: sample_members_def of_strings_def strict_utf8_ascii ascii_def byte_of_def)

lemma sample_config_ok: "config_ok sample_object"
  unfolding config_ok_def levels_ok_def
proof (intro conjI)
  have "is_valid_ip ''0.0.0.0'' = Inr True" by code_simp
  then show "dotted_quad (pd_server sample_object)" by (simp add: is_valid_ip_quad sample_object_def)
qed (simp_all add: sample_object_def get_dir_level_def)

lemma log_bytes_100: "log_bytes 100 = 104857600"
  by (simp add: log_bytes_def to_size_def)

lemma sample_reads: "reads num_json sample_members sample_object"
  by (simp add: reads_def sample_members_def sample_object_def value_or_def string_at_def strings_at_def
      positive_or_def log_bytes_100)

lemma sample_loads: "\<exists>l. load_config num_json (sample_fs room) sample_path sample_object = (Inr 0, sample_object, l)"
proof -
  have "read_file (sample_fs room) sample_path = Some sample_doc"
    by (simp add: read_file_def sample_fs_def contents_def)
  moreover have "j_read num_json sample_doc = Inr (JObj sample_members)"
    using sample_wf(1) sample_utf8
    by (simp add: num_json_def num_parse_def sample_doc_def scan_int_dec_of_nat Let_def del: json_wf.simps json_utf8.simps)
  moreover have "pd_config_json_obj sample_object = JObj sample_members" by (simp add: sample_object_def)
  ultimately show ?thesis
    using load_config_zero [OF num_json_ok, of "sample_fs room" sample_path sample_object sample_object]
      sample_reads sample_config_ok by blast
qed

definition request :: "string \<Rightarrow> string \<Rightarrow> json" where
  "request action conf = JObj [(''action'', JStr action), (''conf'', JStr conf)]"

definition request_body :: "string \<Rightarrow> string \<Rightarrow> string" where
  "request_body action conf = dec_of_nat (to_nat (request action conf))"

lemma good_request_request: "good_request (request action conf) conf action"
  by (simp add: good_request_def request_def)

lemma parse_request:
  assumes "list_all ascii action" and "list_all ascii conf"
  shows "j_parse num_json (request_body action conf) = Inr (request action conf)"
    and "j_dump num_json i (request action conf) = Inr (request_body action conf)"
proof -
  have "strict_utf8 ''action''" "strict_utf8 ''conf''"
    by (simp_all add: strict_utf8_ascii ascii_def byte_of_def)
  then have u: "json_utf8 (request action conf)"
    using assms by (simp add: request_def strict_utf8_ascii)
  have w: "json_wf (request action conf)"
    by (simp add: request_def om_wf_def less_char_def)
  show "j_parse num_json (request_body action conf) = Inr (request action conf)"
    and "j_dump num_json i (request action conf) = Inr (request_body action conf)"
    using u w by (simp_all add: num_json_def num_parse_def request_body_def scan_int_dec_of_nat Let_def)
qed

lemma sample_can_save: "can_save (sample_fs room) sample_object"
proof -
  have "dir_of ''/etc/f.json.tmp'' = Some ''/etc''"
    using str_rfind_cut [of SLASH "''f.json.tmp''" "''/etc''"] by (simp add: dir_of_def npos_def Let_def)
  then show ?thesis
    by (simp add: can_save_def can_open_def dir_ok_def sample_fs_def sample_object_def sample_path_def)
qed

lemma update_sample:
  assumes "edit_list action conf [''/etc/hosts''] = Some confs" and "list_all ascii action"
    and "list_all ascii conf" and "\<And>c. c \<in> set confs \<Longrightarrow> strict_utf8 c"
  shows "\<exists>f' l. update_config num_json (request action conf) (sample_fs room) sample_object =
    (Inr 0, f', sample_object\<lparr>pd_conf_list := confs, pd_config_json_obj := updated_obj confs sample_members\<rparr>, l)"
proof -
  let ?p = "sample_object\<lparr>pd_conf_list := confs\<rparr>"
  have put: "put ''config_list'' (of_strings (pd_conf_list ?p)) (pd_config_json_obj ?p) =
      Inr (updated_obj confs sample_members)"
    by (simp add: put_def sample_object_def updated_obj_def)
  have "json_utf8 (updated_obj confs sample_members)"
    using sample_utf8 assms(4) by (rule updated_obj_utf8)
  then obtain doc where "j_dump num_json (Some 4) (updated_obj confs sample_members) = Inr doc"
    using json_ok_dump(2) [OF num_json_ok] by blast
  moreover have "can_open (sample_fs room) (pd_config_json ?p @ ''.tmp'')"
    "fs_may_rename (sample_fs room) (pd_config_json ?p @ ''.tmp'') (pd_config_json ?p)"
    using sample_can_save [of room] by (simp_all add: can_save_def)
  ultimately obtain f' q l where P: "persist_config num_json (sample_fs room) ?p = (Inr 0, f', q, l)"
    using persist_config_ok [OF put] by blast
  have "pd_config_json_obj ?p = JObj sample_members" by (simp add: sample_object_def)
  from persist_config_cases [OF sample_wf(2) this P] have
    "q = ?p\<lparr>pd_config_json_obj := updated_obj confs sample_members\<rparr>" by simp
  moreover have "edit_list action conf (pd_conf_list sample_object) = Some confs"
    using assms(1) by (simp add: sample_object_def)
  ultimately show ?thesis
    using update_config_good(2) [OF parse_request(2) [OF assms(2,3)] good_request_request _ P] by fastforce
qed

lemma sample_utf8_object: "utf8_object sample_object sample_members"
  using sample_utf8 by (simp add: utf8_object_def sample_object_def strict_utf8_ascii ascii_def byte_of_def)

lemma sample_texts:
  "list_all ascii ''add''" "list_all ascii ''remove''" "list_all ascii ''purge''"
  "list_all ascii ''/etc/hosts''" "list_all ascii ''/etc/fstab''"
  "strict_utf8 ''/etc/hosts''" "strict_utf8 ''/etc/fstab''"
  by (simp_all add: strict_utf8_ascii ascii_def byte_of_def)

lemma sample_add:
  "edit_list ''add'' ''/etc/fstab'' [''/etc/hosts''] = Some [''/etc/hosts'', ''/etc/fstab'']"
  by (simp add: edit_list_def)

section \<open>Properties\<close>

text \<open>C16: \<open>load_config\<close> never throws: it returns 0 or -1, and when it returns 0 the object holds at
  least one path, every path is absolute and no deeper than the positive \<open>max_dir_level\<close>, host id
  and domain name are not empty, the server address is a dotted quad, and the timeout and the
  queue size are positive.\<close>

theorem load_config_sound:
  assumes "json_ok J" and "load_config J f path p = (r, q, l)"
  shows "r = Inr (-1) \<or> r = Inr 0 \<and> pd_conf_list q \<noteq> [] \<and>
    (\<forall>c \<in> set (pd_conf_list q). 0 \<le> fst (get_dir_level c) \<and> fst (get_dir_level c) \<le> pd_max_dir_level q) \<and>
    pd_host_id q \<noteq> [] \<and> pd_domain_name q \<noteq> [] \<and> is_valid_ip (pd_server q) = Inr True \<and>
    0 < pd_max_dir_level q \<and> 0 < pd_cache_timeout_seconds q \<and> 0 < pd_max_event_queue_size q"
proof (cases "r = Inr 0")
  case True
  then obtain m where "reads J m q" "config_ok q"
    using load_config_zero [OF assms(1), of f path p q] assms(2) by auto
  with reads_positive [OF assms(1)] True show ?thesis
    by (simp add: config_ok_def levels_ok_def is_valid_ip_quad)
qed (use load_config_cases [OF assms(1), of f path p] assms(2) in simp)

theorem load_config_sound_witness:
  "\<exists>q l. load_config num_json (sample_fs 0) sample_path sample_object = (Inr 0, q, l) \<and>
     pd_conf_list q \<noteq> [] \<and> 0 < pd_max_dir_level q"
proof -
  obtain l where L: "load_config num_json (sample_fs 0) sample_path sample_object = (Inr 0, sample_object, l)"
    using sample_loads by blast
  from load_config_sound [OF num_json_ok L] L show ?thesis by auto
qed

text \<open>C17: An update of the configuration is all or nothing on disk: when it reports success the
  configuration file holds the whole new document (as far as the device took it) and the temporary
  file is gone; when it fails, by a return code or by an exception, every file but the temporary
  one is as before.\<close>

theorem update_is_atomic_on_disk:
  assumes "json_ok J" and "fs_wf f" and "pd_config_json_obj p = JObj m"
    and "update_config J j f p = (r, f', q, l)"
  shows "if r = Inr 0
    then \<exists>doc. j_dump J (Some 4) (pd_config_json_obj q) = Inr doc \<and>
      contents f' = (contents f)(pd_config_json p @ ''.tmp'' := None,
        pd_config_json p \<mapsto> take (fs_room f) (doc @ [CHR 0x0A]))
    else \<forall>n. n \<noteq> pd_config_json p @ ''.tmp'' \<longrightarrow> contents f' n = contents f n"
proof -
  from update_config_cases [OF assms] have "pd_config_json q = pd_config_json p"
    by (auto dest: arg_cong [where f = pd_config_json])
  with update_config_cases [OF assms] show ?thesis
    by (auto simp: saved_def untouched_def)
qed

theorem update_is_atomic_on_disk_witness:
  "\<exists>f' q l. update_config num_json (request ''add'' ''/etc/fstab'') (sample_fs 0) sample_object = (Inr 0, f', q, l) \<and>
     contents f' (sample_path @ ''.tmp'') = None \<and> contents f' sample_path \<noteq> None"
proof -
  obtain f' q l where U: "update_config num_json (request ''add'' ''/etc/fstab'') (sample_fs 0) sample_object =
      (Inr 0, f', q, l)"
    using update_sample [OF sample_add] sample_texts by fastforce
  from update_is_atomic_on_disk [OF num_json_ok sample_wf(2) _ U] U show ?thesis by auto
qed

text \<open>C9: After a load and a successful update, loading the file again, as the next start of the
  daemon does, leaves exactly the object the update left in memory: the new list of paths and every
  other setting. The device must have room for the file, and the new list must itself be acceptable.\<close>

theorem update_then_reload:
  assumes J: "json_ok J" and wf: "fs_wf f" and path: "pd_config_json p = path"
    and load: "load_config J f path p = (Inr 0, q, l0)"
    and upd: "update_config J j f q = (Inr 0, f', q', l1)"
    and room: "\<And>doc. j_dump J (Some 4) (pd_config_json_obj q') = Inr doc \<Longrightarrow> length doc < fs_room f"
    and list: "pd_conf_list q' \<noteq> []" "levels_ok (pd_max_dir_level q') (pd_conf_list q')"
    and same: "outside_config p2 = outside_config q'"
  shows "\<exists>l. load_config J f' path p2 = (Inr 0, q', l)"
proof -
  from load load_config_zero [OF J, of f path p q] obtain old m where
    old: "read_file f path = Some old" "j_read J old = Inr (JObj m)" and
    q: "pd_config_json_obj q = JObj m" "reads J m q" "config_ok q" "outside_config q = outside_config p"
    by blast
  from update_config_cases [OF J wf q(1) upd] obtain confs where
    q': "q' = q\<lparr>pd_conf_list := confs, pd_config_json_obj := updated_obj confs m\<rparr>"
      "fs_may_open f' = fs_may_open f" and sv: "saved J f f' q'"
    by auto
  have cj: "pd_config_json q' = path"
    using q(4) path by (simp add: outside_config_def q'(1))
  have obj: "pd_config_json_obj q' = updated_obj confs m" by (simp add: q'(1))
  from sv cj obtain doc where doc: "j_dump J (Some 4) (updated_obj confs m) = Inr doc"
    "contents f' path = Some (take (fs_room f) (doc @ [CHR 0x0A]))"
    by (auto simp: saved_def obj)
  then have "contents f' path = Some (doc @ [CHR 0x0A])" using room [of doc] obj by simp
  moreover have "fs_may_open f path" using old(1) by (simp add: read_file_def split: if_splits)
  ultimately have rd: "read_file f' path = Some (doc @ [CHR 0x0A])" using q'(2) by (simp add: read_file_def)
  have "json_wf (JObj m)" using json_ok_parse(5) [OF J old(2)] .
  then have ps: "j_read J (doc @ [CHR 0x0A]) = Inr (updated_obj confs m)"
    using json_ok_dump(4) [OF J updated_obj_wf doc(1)] by blast
  have "reads J (om_put ''config_list'' (of_strings confs) m) q'"
    unfolding q'(1) by (rule reads_updated [OF q(2)])
  moreover have "config_ok q'"
    using q(3) list by (simp add: config_ok_def q'(1))
  ultimately show ?thesis
    using load_config_zero [OF J, of f' path p2 q'] rd ps obj same by (auto simp: updated_obj_def)
qed

theorem update_then_reload_witness:
  "\<exists>room f' q' l l'.
     update_config num_json (request ''add'' ''/etc/fstab'') (sample_fs room) sample_object = (Inr 0, f', q', l) \<and>
     load_config num_json f' sample_path sample_object = (Inr 0, q', l') \<and>
     pd_conf_list q' = [''/etc/hosts'', ''/etc/fstab'']"
proof -
  let ?confs = "[''/etc/hosts'', ''/etc/fstab'']"
  let ?q = "sample_object\<lparr>pd_conf_list := ?confs, pd_config_json_obj := updated_obj ?confs sample_members\<rparr>"
  define room where "room = Suc (length (dec_of_nat (to_nat (updated_obj ?confs sample_members))))"
  obtain f' l where U: "update_config num_json (request ''add'' ''/etc/fstab'') (sample_fs room) sample_object =
      (Inr 0, f', ?q, l)"
    using update_sample [OF sample_add] sample_texts by fastforce
  obtain l0 where L: "load_config num_json (sample_fs room) sample_path sample_object = (Inr 0, sample_object, l0)"
    using sample_loads by blast
  have fits: "length doc < fs_room (sample_fs room)"
    if "j_dump num_json (Some 4) (pd_config_json_obj ?q) = Inr doc" for doc
    using that by (auto simp: num_json_def sample_fs_def room_def split: if_splits)
  have levels: "levels_ok (pd_max_dir_level ?q) (pd_conf_list ?q)"
    by (simp add: levels_ok_def get_dir_level_def)
  have "\<exists>l. load_config num_json f' sample_path sample_object = (Inr 0, ?q, l)"
    by (rule update_then_reload [OF num_json_ok sample_wf(2) _ L U]) (use fits levels in \<open>simp_all add: outside_config_def\<close>)
  with U show ?thesis by fastforce
qed

text \<open>C28: With the saved object and the list of paths in memory UTF-8, as a load leaves them, the
  handler of \<open>POST /filetrace\<close> always answers. The body must be an object with the strings \<open>conf\<close>
  and \<open>action\<close>, the action \<open>add\<close>, which appends the path to the list, or \<open>remove\<close>, which takes every
  occurrence of it out; on any other body it answers 400 and changes nothing. Otherwise the list of
  paths and its copy in the saved object, and nothing else of the daemon, are as asked for, and it
  answers 200 with the configuration saved if the temporary file can be opened and renamed, and 500
  with the file as it was if not.\<close>

theorem update_request_answers:
  assumes "json_ok J" and "fs_wf f" and "utf8_object p m"
    and "handle_update_config_request J body f p = (r, f', q, l)"
  shows "\<exists>rs. r = Inr rs \<and> (case wanted J body (pd_conf_list p) of
      None \<Rightarrow> rs_status rs = 400 \<and> q = p \<and> f' = f
    | Some confs \<Rightarrow> q = p\<lparr>pd_conf_list := confs, pd_config_json_obj := updated_obj confs m\<rparr> \<and>
        (if can_save f p then rs_status rs = 200 \<and> saved J f f' q else rs_status rs = 500 \<and> untouched f f' q))"
  using assms by (rule update_request_cases)

theorem update_request_answers_witness:
  "\<exists>rs f' q l. handle_update_config_request num_json (request_body ''purge'' ''/etc/fstab'') (sample_fs 0) sample_object =
     (Inr rs, f', q, l) \<and> rs_status rs = 400 \<and> q = sample_object"
proof -
  obtain r f' q l where H: "handle_update_config_request num_json (request_body ''purge'' ''/etc/fstab'')
      (sample_fs 0) sample_object = (r, f', q, l)" by (metis prod_cases4)
  have "wanted num_json (request_body ''purge'' ''/etc/fstab'') (pd_conf_list sample_object) = None"
    using wanted_Some [OF parse_request(1) good_request_request, of "''purge''" "''/etc/fstab''"] sample_texts
    by (simp add: edit_list_def)
  with update_request_answers [OF num_json_ok sample_wf(2) sample_utf8_object H] H show ?thesis by auto
qed

text \<open>C30: When the temporary file cannot be opened the request fails with 500 and the disk is
  unchanged, but the new path stays in the list the running daemon matches events against: the
  change in memory is not rolled back, and it is gone after a restart.\<close>

theorem failed_update_not_rolled_back:
  assumes "json_ok J" and "fs_wf f" and "utf8_object p m"
    and "j_parse J body = Inr j" and "good_request j conf ''add''"
    and "\<not> can_open f (pd_config_json p @ ''.tmp'')"
  shows "\<exists>rs q l. handle_update_config_request J body f p = (Inr rs, f, q, l) \<and> rs_status rs = 500 \<and>
    pd_conf_list q = pd_conf_list p @ [conf]"
proof -
  have put: "put ''config_list'' (of_strings (pd_conf_list p @ [conf])) (pd_config_json_obj p) =
      Inr (updated_obj (pd_conf_list p @ [conf]) m)"
    using assms(3) by (simp add: put_def utf8_object_def updated_obj_def)
  have "edit_list ''add'' conf (pd_conf_list p) = Some (pd_conf_list p @ [conf])"
    by (simp add: edit_list_def)
  moreover obtain l where "persist_config J f (p\<lparr>pd_conf_list := pd_conf_list p @ [conf]\<rparr>) = (Inr (-1), f,
      p\<lparr>pd_conf_list := pd_conf_list p @ [conf],
        pd_config_json_obj := updated_obj (pd_conf_list p @ [conf]) m\<rparr>, l)"
    using put assms(6) by (simp add: persist_config_def open_trunc_def Let_def)
  moreover obtain doc where "j_dump J None j = Inr doc"
    using json_ok_dump(2) [OF assms(1) json_ok_parse(3) [OF assms(1,4)]] by blast
  ultimately show ?thesis
    using update_config_good(2) [OF _ assms(5), of J doc p] good_request_members [OF assms(5)] assms(4)
    by (fastforce simp: handle_update_config_request_def answer_def)
qed

theorem failed_update_not_rolled_back_witness:
  "\<exists>rs q l. handle_update_config_request num_json (request_body ''add'' ''/etc/fstab'')
     ((sample_fs 0)\<lparr>fs_may_open := \<lambda>_. False\<rparr>) sample_object =
       (Inr rs, (sample_fs 0)\<lparr>fs_may_open := \<lambda>_. False\<rparr>, q, l) \<and> rs_status rs = 500 \<and>
     pd_conf_list q = [''/etc/hosts'', ''/etc/fstab'']"
proof -
  have "fs_wf ((sample_fs 0)\<lparr>fs_may_open := \<lambda>_. False\<rparr>)" by (simp add: fs_wf_def sample_fs_def)
  from failed_update_not_rolled_back [OF num_json_ok this sample_utf8_object
      parse_request(1) [OF sample_texts(1,5)] good_request_request] show ?thesis
    by (simp add: can_open_def)
qed

text \<open>C31: When the temporary file can be opened and renamed, on a device without room for the document, a
  request to add a path, with the saved object in memory UTF-8, is answered 200 all the same, and the
  configuration file is left with only as many bytes as fitted, a cut document: the
  result of the write is not checked before the rename replaces the good file.\<close>

theorem full_device_truncates_config:
  assumes "json_ok J" and "fs_wf f" and "utf8_object p m"
    and "j_parse J body = Inr j" and "good_request j conf ''add''" and "can_save f p"
    and "j_dump J (Some 4) (updated_obj (pd_conf_list p @ [conf]) m) = Inr doc" and "fs_room f < length doc"
  shows "\<exists>rs f' q l. handle_update_config_request J body f p = (Inr rs, f', q, l) \<and> rs_status rs = 200 \<and>
    pd_conf_list q = pd_conf_list p @ [conf] \<and>
    contents f' (pd_config_json p) = Some (take (fs_room f) doc) \<and> take (fs_room f) doc \<noteq> doc"
proof -
  have "edit_list ''add'' conf (pd_conf_list p) = Some (pd_conf_list p @ [conf])" by (simp add: edit_list_def)
  moreover define q where "q = p\<lparr>pd_conf_list := pd_conf_list p @ [conf],
      pd_config_json_obj := updated_obj (pd_conf_list p @ [conf]) m\<rparr>"
  ultimately obtain rs f' l where
    H: "handle_update_config_request J body f p = (Inr rs, f', q, l)" "rs_status rs = 200" "saved J f f' q"
    using update_request_succeeds [OF assms(1-5) _ assms(6)] by metis
  have "contents f' (pd_config_json p) = Some (take (fs_room f) doc)"
    using H(3) assms(7,8) by (simp add: saved_def q_def)
  moreover have "take (fs_room f) doc \<noteq> doc" using assms(8) by (simp add: take_all_iff)
  moreover have "pd_conf_list q = pd_conf_list p @ [conf]" by (simp add: q_def)
  ultimately show ?thesis using H(1,2) by blast
qed

theorem full_device_truncates_config_witness:
  "\<exists>rs f' q l. handle_update_config_request num_json (request_body ''add'' ''/etc/fstab'') (sample_fs 0) sample_object =
     (Inr rs, f', q, l) \<and> rs_status rs = 200 \<and> contents f' sample_path = Some []"
proof -
  have "json_utf8 (updated_obj (pd_conf_list sample_object @ [''/etc/fstab'']) sample_members)"
    using sample_utf8 sample_texts by (intro updated_obj_utf8) (auto simp: sample_object_def)
  from json_ok_dump(2) [OF num_json_ok this] obtain doc where doc:
    "j_dump num_json (Some 4) (updated_obj (pd_conf_list sample_object @ [''/etc/fstab'']) sample_members) = Inr doc"
    "doc \<noteq> []" by blast
  have "fs_room (sample_fs 0) < length doc" using doc(2) by (simp add: sample_fs_def)
  from full_device_truncates_config [OF num_json_ok sample_wf(2) sample_utf8_object parse_request(1) [OF sample_texts(1,5)]
      good_request_request sample_can_save doc(1) this] obtain rs f' q l where
    H: "handle_update_config_request num_json (request_body ''add'' ''/etc/fstab'') (sample_fs 0) sample_object =
      (Inr rs, f', q, l)" "rs_status rs = 200" and
    c: "contents f' (pd_config_json sample_object) = Some (take (fs_room (sample_fs 0)) doc)" by blast
  have "pd_config_json sample_object = sample_path" "fs_room (sample_fs 0) = 0"
    by (simp_all add: sample_object_def sample_fs_def)
  with H c show ?thesis by (metis take_0)
qed

text \<open>C29: A request to remove the last configured path, when the saved object in memory is UTF-8,
  as a load leaves it, the temporary file can be opened and renamed and the device has room for the
  document, is answered 200 and saves an empty list, which every later start of the daemon rejects.\<close>

theorem removing_last_path_breaks_restart:
  assumes J: "json_ok J" and wf: "fs_wf f" and obj: "utf8_object p m" "json_wf (JObj m)"
    and one: "pd_conf_list p = [c]" and j: "j_parse J body = Inr j" "good_request j c ''remove''"
    and save: "can_save f p"
    and room: "\<And>doc. j_dump J (Some 4) (updated_obj [] m) = Inr doc \<Longrightarrow> length doc < fs_room f"
  shows "\<exists>rs f' q l. handle_update_config_request J body f p = (Inr rs, f', q, l) \<and> rs_status rs = 200 \<and>
    pd_conf_list q = [] \<and> saved J f f' q \<and> (\<forall>p2. fst (load_config J f' (pd_config_json p) p2) = Inr (-1))"
proof -
  have "edit_list ''remove'' c (pd_conf_list p) = Some []" using one by (simp add: edit_list_def)
  moreover define q where "q = p\<lparr>pd_conf_list := [], pd_config_json_obj := updated_obj [] m\<rparr>"
  ultimately obtain rs f' l where
    H: "handle_update_config_request J body f p = (Inr rs, f', q, l)" "rs_status rs = 200" and sv: "saved J f f' q"
    using update_request_succeeds [OF J wf obj(1) j _ save] by metis
  from sv obtain doc where doc: "j_dump J (Some 4) (updated_obj [] m) = Inr doc"
    "contents f' (pd_config_json p) = Some (take (fs_room f) (doc @ [CHR 0x0A]))"
    by (auto simp: saved_def q_def)
  then have "contents f' (pd_config_json p) = Some (doc @ [CHR 0x0A])" using room [of doc] by simp
  then have "read_file f' (pd_config_json p) = None \<or> read_file f' (pd_config_json p) = Some (doc @ [CHR 0x0A])"
    by (simp add: read_file_def)
  moreover have "j_read J (doc @ [CHR 0x0A]) = Inr (updated_obj [] m)"
    using json_ok_dump(4) [OF J updated_obj_wf [OF obj(2)] doc(1)] .
  ultimately have no: "\<not> (\<exists>l. load_config J f' (pd_config_json p) p2 = (Inr 0, q2, l))" for p2 q2
    unfolding load_config_zero [OF J]
    by (auto simp: updated_obj_def reads_def strings_at_def config_ok_def)
  have "fst (load_config J f' (pd_config_json p) p2) = Inr (-1)" for p2
    using load_config_cases [OF J, of f' "pd_config_json p" p2] no [of p2]
    by (cases "load_config J f' (pd_config_json p) p2") auto
  moreover have "pd_conf_list q = []" by (simp add: q_def)
  ultimately show ?thesis using H sv by blast
qed

theorem removing_last_path_breaks_restart_witness:
  "\<exists>room rs f' q l. handle_update_config_request num_json (request_body ''remove'' ''/etc/hosts'') (sample_fs room)
     sample_object = (Inr rs, f', q, l) \<and> rs_status rs = 200 \<and>
     fst (load_config num_json f' sample_path sample_object) = Inr (-1)"
proof -
  define room where "room = Suc (length (dec_of_nat (to_nat (updated_obj [] sample_members))))"
  have fits: "length doc < fs_room (sample_fs room)"
    if "j_dump num_json (Some 4) (updated_obj [] sample_members) = Inr doc" for doc
    using that by (auto simp: num_json_def sample_fs_def room_def split: if_splits)
  have "pd_conf_list sample_object = [''/etc/hosts'']" "pd_config_json sample_object = sample_path"
    by (simp_all add: sample_object_def)
  from removing_last_path_breaks_restart [OF num_json_ok sample_wf(2) sample_utf8_object sample_wf(1) this(1)
      parse_request(1) [OF sample_texts(2,4)] good_request_request sample_can_save fits] this(2)
  show ?thesis by (metis (no_types))
qed

end
