(* ===== verification/EventQueue.thy ===== *)
theory EventQueue
  imports Reload
begin

text \<open>
  The events kept for the HTTP interface: \<open>cache_event\<close>, \<open>get_events_from_queue\<close> and the handler
  of \<open>GET /monitor_file_status\<close> in \<open>src/post.cpp\<close>. The locale \<open>bounded_fifo\<close> is the contract of
  the queue: it keeps the latest events, up to its capacity, and hands them out oldest first.
\<close>

section \<open>Filling the queue\<close>

text \<open>An object built by assigning members one after the other.\<close>

definition obj_of :: "(string \<times> json) list \<Rightarrow> json" where
  "obj_of kvs = JObj (foldl (\<lambda>m (k, v). om_put k v m) [] kvs)"

definition event_json :: "event \<Rightarrow> fault + json" where
  "event_json e =
     (case nr_name (ev_flag e) of Inl x \<Rightarrow> Inl x
      | Inr syscall \<Rightarrow> Inr (obj_of
          [(''pid'', JInt (uint (ev_pid e))), (''ppid'', JInt (uint (ev_ppid e))),
           (''cmd'', JStr (cstr (ev_cmd e))), (''flag'', JInt (ev_flag e)), (''syscall'', JStr syscall),
           (''filename'', JStr (cstr (ev_filename e))), (''oldfilename'', JStr (cstr (ev_oldfilename e))),
           (''dir1'', JStr (cstr (ev_dir1 e))), (''dir2'', JStr (cstr (ev_dir2 e))),
           (''dir3'', JStr (cstr (ev_dir3 e))), (''dir4'', JStr (cstr (ev_dir4 e)))]))"

text \<open>Popping an empty \<open>std::queue\<close> is undefined.\<close>

definition queue_pop :: "'a list \<Rightarrow> fault + 'a list" where
  "queue_pop q = (case q of [] \<Rightarrow> Inl Undefined_behaviour | _ # q' \<Rightarrow> Inr q')"

definition cache_event :: "event \<Rightarrow> postdata \<Rightarrow> fault + postdata \<times> effect list" where
  "cache_event e p =
     (let l0 = [Log DEBUG ''Caching event for API access.''] in
      if \<not> pd_cache_data p then Inr (p, l0 @ [Log INFO ''API server is disabled, not caching event.''])
      else
        (case event_json e of Inl x \<Rightarrow> Inl x
         | Inr j \<Rightarrow>
             (case (if length (pd_event_queue p) \<ge> to_size (pd_max_event_queue_size p)
                    then queue_pop (pd_event_queue p) else Inr (pd_event_queue p)) of
                Inl x \<Rightarrow> Inl x
              | Inr q \<Rightarrow> Inr (p\<lparr>pd_event_queue := q @ [j]\<rparr>, l0))))"

fun cache_events :: "event list \<Rightarrow> postdata \<Rightarrow> fault + postdata" where
  "cache_events [] p = Inr p"
| "cache_events (e # es) p =
     (case cache_event e p of Inl x \<Rightarrow> Inl x | Inr (q, l) \<Rightarrow> cache_events es q)"

section \<open>Reading the queue\<close>

fun pop_events :: "nat \<Rightarrow> json list \<Rightarrow> fault + json list \<times> json list" where
  "pop_events 0 q = Inr ([], q)"
| "pop_events (Suc n) q =
     (case q of [] \<Rightarrow> Inl Undefined_behaviour
      | j # q' \<Rightarrow> (case pop_events n q' of Inl x \<Rightarrow> Inl x | Inr (js, r) \<Rightarrow> Inr (j # js, r)))"

text \<open>\<open>std::min(count, static_cast<int>(event_queue.size()))\<close>, and the loop up to it.\<close>

definition get_events_from_queue :: "int \<Rightarrow> postdata \<Rightarrow> fault + json \<times> postdata" where
  "get_events_from_queue count p =
     (if pd_event_queue p = [] then Inr (JArr [], p)
      else
        (let actual_count = min count (to_int32 (word_of_nat (length (pd_event_queue p))))
         in case pop_events (nat actual_count) (pd_event_queue p) of
              Inl x \<Rightarrow> Inl x
            | Inr (js, q) \<Rightarrow> Inr (JArr js, p\<lparr>pd_event_queue := q\<rparr>)))"

text \<open>The \<open>count\<close> parameter of the request, \<open>None\<close> when the query has none.\<close>

definition wanted_count :: "json_lib \<Rightarrow> string option \<Rightarrow> int \<Rightarrow> int logged" where
  "wanted_count J param max_size =
     (case param of
        None \<Rightarrow> (10, [])
      | Some s \<Rightarrow>
          (if s = [] then (10, [])
           else
             (let (count, l) = (case stoi s of
                    Inr n \<Rightarrow> (n, [])
                  | Inl x \<Rightarrow> (10, [Log ERROR (''Invalid count parameter for /monitor_file_status: '' @ s @
                               '', error: '' @ j_what J x)]))
              in (if count \<le> 0 \<or> count > max_size then 10 else count, l))))"

text \<open>
  The handler. The array is empty when nothing was queued; an exception of \<open>dump\<close> leaves it,
  after the events are gone from the queue.
\<close>

definition monitor_file_status :: "json_lib \<Rightarrow> string option \<Rightarrow> postdata \<Rightarrow>
    (fault + response) \<times> postdata \<times> effect list" where
  "monitor_file_status J param p =
     (let (count, l) = wanted_count J param (pd_max_event_queue_size p) in
      case get_events_from_queue count p of
        Inl x \<Rightarrow> (Inl x, p, l)
      | Inr (event_j, q) \<Rightarrow>
          (let events = (case event_j of JArr js \<Rightarrow> js | _ \<Rightarrow> []) in
           if events = []
           then (case j_dump J (Some 2) (obj_of [(''status'', JStr ''no_event'')]) of
                   Inl x \<Rightarrow> (Inl x, q, l)
                 | Inr body \<Rightarrow> (Inr (answer 204 body ''application/json''), q, l))
           else (case j_dump J (Some 2) (obj_of [(''status'', JStr ''ok''),
                     (''count'', JInt (int (length events))), (''events'', event_j)]) of
                   Inl x \<Rightarrow> (Inl x, q, l)
                 | Inr body \<Rightarrow> (Inr (answer 200 body ''application/json''), q, l))))"

section \<open>The contract of the queue\<close>

locale bounded_fifo =
  fixes inv :: "'s \<Rightarrow> bool"
    and cap :: "'s \<Rightarrow> nat"
    and items :: "'s \<Rightarrow> 'a list"
    and fine :: "'e \<Rightarrow> bool"
    and code :: "'e \<Rightarrow> 'a"
    and push :: "'e \<Rightarrow> 's \<Rightarrow> 's option"
    and fetch :: "nat \<Rightarrow> 's \<Rightarrow> ('a list \<times> 's) option"
  assumes bound: "inv s \<Longrightarrow> 0 < cap s \<and> length (items s) \<le> cap s"
    and push: "inv s \<Longrightarrow> fine e \<Longrightarrow> \<exists>s'. push e s = Some s' \<and> inv s' \<and> cap s' = cap s \<and>
      items s' = (if length (items s) = cap s then tl (items s) else items s) @ [code e]"
    and fetch: "inv s \<Longrightarrow> 0 < n \<Longrightarrow> \<exists>s'. fetch n s = Some (take n (items s), s') \<and> inv s' \<and>
      cap s' = cap s \<and> items s' = drop n (items s)"
begin

fun pushes :: "'e list \<Rightarrow> 's \<Rightarrow> 's option" where
  "pushes [] s = Some s"
| "pushes (e # es) s = (case push e s of None \<Rightarrow> None | Some s' \<Rightarrow> pushes es s')"

text \<open>After any number of insertions the queue holds the last \<open>cap\<close> of everything, in order.\<close>

lemma keeps_latest:
  assumes "inv s" and "\<And>e. e \<in> set es \<Longrightarrow> fine e"
  shows "\<exists>s'. pushes es s = Some s' \<and> inv s' \<and> cap s' = cap s \<and>
    items s' = drop (length (items s) + length es - cap s) (items s @ map code es)"
  using assms
proof (induction es arbitrary: s)
  case Nil
  then show ?case using bound [of s] by simp
next
  case (Cons e es)
  from push [OF Cons.prems(1), of e] Cons.prems(2) obtain s1 where
    s1: "push e s = Some s1" "inv s1" "cap s1 = cap s"
      "items s1 = (if length (items s) = cap s then tl (items s) else items s) @ [code e]" by auto
  from Cons.IH [OF s1(2)] Cons.prems(2) obtain s' where
    s': "pushes es s1 = Some s'" "inv s'" "cap s' = cap s"
      "items s' = drop (length (items s1) + length es - cap s) (items s1 @ map code es)"
    using s1(3) by auto
  have "items s' = drop (length (items s) + length (e # es) - cap s) (items s @ map code (e # es))"
  proof (cases "length (items s) = cap s")
    case True
    then have "items s \<noteq> []" using bound [OF Cons.prems(1)] by auto
    then obtain x xs where "items s = x # xs" by (cases "items s") auto
    then show ?thesis using s'(4) s1(4) by (simp add: True [symmetric] del: drop_append)
  next
    case False
    then show ?thesis using s'(4) s1(4) by (simp del: drop_append)
  qed
  then show ?case using s1 s' by auto
qed

text \<open>Two readings in a row hand out what one reading of both sizes would.\<close>

lemma fetch_twice:
  assumes "inv s" and "0 < m" and "0 < n"
  obtains xs ys s1 s2 where "fetch m s = Some (xs, s1)" and "fetch n s1 = Some (ys, s2)"
    and "xs @ ys = take (m + n) (items s)" and "items s2 = drop (m + n) (items s)"
proof -
  from fetch [OF assms(1,2)] obtain s1 where 1: "fetch m s = Some (take m (items s), s1)" "inv s1"
    "items s1 = drop m (items s)" by auto
  from fetch [OF 1(2) assms(3)] obtain s2 where 2: "fetch n s1 = Some (take n (items s1), s2)"
    "items s2 = drop n (items s1)" by auto
  show ?thesis
    by (rule that [OF 1(1) 2(1)]) (simp_all add: 1(3) 2(2) take_add add.commute)
qed

end

section \<open>The queue of the program has the contract\<close>

definition queue_inv :: "postdata \<Rightarrow> bool" where
  "queue_inv p \<longleftrightarrow> pd_cache_data p \<and> 0 < pd_max_event_queue_size p \<and> pd_max_event_queue_size p < 2 ^ 31 \<and>
     int (length (pd_event_queue p)) \<le> pd_max_event_queue_size p"

definition known_call :: "event \<Rightarrow> bool" where
  "known_call e \<longleftrightarrow> 0 \<le> ev_flag e \<and> ev_flag e < 8"

definition event_obj :: "event \<Rightarrow> json" where
  "event_obj e = (case event_json e of Inr j \<Rightarrow> j | Inl _ \<Rightarrow> JNull)"

definition push_event :: "event \<Rightarrow> postdata \<Rightarrow> postdata option" where
  "push_event e p = (case cache_event e p of Inr (q, l) \<Rightarrow> Some q | Inl _ \<Rightarrow> None)"

definition fetch_events :: "nat \<Rightarrow> postdata \<Rightarrow> (json list \<times> postdata) option" where
  "fetch_events n p = (case get_events_from_queue (int n) p of Inr (JArr js, q) \<Rightarrow> Some (js, q) | _ \<Rightarrow> None)"

lemma event_json_known: "known_call e \<Longrightarrow> event_json e = Inr (event_obj e)"
  by (simp add: known_call_def event_obj_def event_json_def nr_name_Inr)

lemma pop_events_ok: "n \<le> length q \<Longrightarrow> pop_events n q = Inr (take n q, drop n q)"
  by (induction n q rule: pop_events.induct) (auto split: list.splits)

lemma size_as_int: "n < 2 ^ 31 \<Longrightarrow> to_int32 (word_of_nat n) = int n"
  by (simp add: to_int32_def signed_of_nat signed_take_bit_int_eq_self)

lemma get_events_spec:
  assumes "queue_inv p" and "0 < n"
  shows "get_events_from_queue n p =
    Inr (JArr (take (nat n) (pd_event_queue p)), p\<lparr>pd_event_queue := drop (nat n) (pd_event_queue p)\<rparr>)"
proof (cases "pd_event_queue p = []")
  case True
  then have "p\<lparr>pd_event_queue := []\<rparr> = p" by (metis postdata.surjective postdata.update_convs(23))
  with True show ?thesis by (simp add: get_events_from_queue_def)
next
  case False
  let ?q = "pd_event_queue p"
  have len: "to_int32 (word_of_nat (length ?q)) = int (length ?q)"
    using assms(1) by (intro size_as_int) (auto simp: queue_inv_def)
  have "nat (min n (int (length ?q))) \<le> length ?q" by simp
  then have "pop_events (nat (min n (int (length ?q)))) ?q = Inr (take (nat n) ?q, drop (nat n) ?q)"
    by (subst pop_events_ok) (auto simp: min_def)
  with False len show ?thesis by (simp add: get_events_from_queue_def Let_def)
qed

interpretation queue: bounded_fifo queue_inv "\<lambda>p. nat (pd_max_event_queue_size p)" pd_event_queue known_call
    event_obj push_event fetch_events
proof (unfold_locales, goal_cases)
  case (1 p)
  then show ?case by (auto simp: queue_inv_def)
next
  case (2 p e)
  have cap: "to_size (pd_max_event_queue_size p) = nat (pd_max_event_queue_size p)"
    using 2(1) by (intro to_size_nonneg) (auto simp: queue_inv_def)
  show ?case
  proof (cases "length (pd_event_queue p) = nat (pd_max_event_queue_size p)")
    case True
    then obtain j q where "pd_event_queue p = j # q"
      using 2(1) by (cases "pd_event_queue p") (auto simp: queue_inv_def)
    then show ?thesis
      using 2 True cap event_json_known [OF 2(2)]
      by (auto simp: push_event_def cache_event_def queue_pop_def queue_inv_def)
  next
    case False
    then have "length (pd_event_queue p) < nat (pd_max_event_queue_size p)"
      using 2(1) by (auto simp: queue_inv_def)
    then show ?thesis
      using 2 cap event_json_known [OF 2(2)]
      by (auto simp: push_event_def cache_event_def queue_inv_def)
  qed
next
  case (3 p n)
  then show ?case
    by (auto simp: fetch_events_def get_events_spec queue_inv_def)
qed

lemma cache_events_pushes: "queue.pushes es p = Some r \<Longrightarrow> cache_events es p = Inr r"
proof (induction es arbitrary: p)
  case (Cons e es)
  then obtain q where q: "push_event e p = Some q" "queue.pushes es q = Some r"
    by (auto split: option.splits)
  then obtain l where "cache_event e p = Inr (q, l)"
    by (auto simp: push_event_def split: sum.splits)
  with Cons.IH [OF q(2)] show ?case by simp
qed simp

lemma obj_of_utf8:
  assumes "\<And>k v. (k, v) \<in> set kvs \<Longrightarrow> strict_utf8 k \<and> json_utf8 v"
  shows "json_utf8 (obj_of kvs)"
proof -
  have "json_utf8 (JObj m) \<Longrightarrow> json_utf8 (JObj (foldl (\<lambda>m (k, v). om_put k v m) m kvs))" for m
    using assms
  proof (induction kvs arbitrary: m)
    case (Cons kv kvs)
    obtain k v where kv: "kv = (k, v)" by fastforce
    have "json_utf8 (JObj (om_put k v m))"
      using Cons.prems(1) Cons.prems(2) [of k v] set_om_put [of k v m] by (fastforce simp: kv)
    then have "json_utf8 (JObj (foldl (\<lambda>m (k, v). om_put k v m) (om_put k v m) kvs))"
      by (rule Cons.IH) (meson Cons.prems(2) list.set_intros(2))
    then show ?case by (simp add: kv)
  qed simp
  from this [of "[]"] show ?thesis by (simp add: obj_of_def)
qed

lemma status_keys: "strict_utf8 ''status''" "strict_utf8 ''count''" "strict_utf8 ''events''" "strict_utf8 ''ok''"
  "strict_utf8 ''no_event''"
  by (simp_all add: strict_utf8_ascii ascii_def byte_of_def)

text \<open>
  How many events a request asks for: the number given, if there is one between 1 and the size of the
  queue, and ten otherwise.
\<close>

definition asked_count :: "int \<Rightarrow> string option \<Rightarrow> nat" where
  "asked_count max_size param =
     (case Option.bind param (\<lambda>s. case stoi s of Inr n \<Rightarrow> Some n | Inl _ \<Rightarrow> None) of
        Some n \<Rightarrow> if n \<in> {1..max_size} then nat n else 10
      | None \<Rightarrow> 10)"

lemma wanted_count_asked: "fst (wanted_count J param max_size) = int (asked_count max_size param)"
proof (cases param)
  case (Some s)
  have "stoi [] = Inl (Throw Invalid_argument)" by code_simp
  then show ?thesis
    by (cases "s = []"; cases "stoi s") (auto simp: Some wanted_count_def asked_count_def Let_def)
qed (simp add: wanted_count_def asked_count_def)

lemma asked_count_pos: "0 < asked_count max_size param"
  by (auto simp: asked_count_def split: option.splits)

lemma wanted_count_range: "0 < fst (wanted_count J param max_size)"
  using asked_count_pos [of max_size param] by (simp add: wanted_count_asked)

lemma status_doc_utf8:
  "json_utf8 (obj_of [(''status'', JStr ''ok''), (''count'', JInt n), (''events'', JArr js)]) \<longleftrightarrow>
   (\<forall>j \<in> set js. json_utf8 j)"
proof
  assume "json_utf8 (obj_of [(''status'', JStr ''ok''), (''count'', JInt n), (''events'', JArr js)])"
  then show "\<forall>j \<in> set js. json_utf8 j"
    by (simp add: obj_of_def less_char_def)
next
  assume "\<forall>j \<in> set js. json_utf8 j"
  then show "json_utf8 (obj_of [(''status'', JStr ''ok''), (''count'', JInt n), (''events'', JArr js)])"
    by (intro obj_of_utf8) (auto simp: status_keys)
qed

text \<open>
  A request takes as many events as asked for off the queue, and only then prints the answer: 204 when
  there was none, 200 with the events when their texts are UTF-8, an exception otherwise.
\<close>

definition status_document :: "json list \<Rightarrow> json" where
  "status_document js = JObj [(''count'', JInt (int (length js))), (''events'', JArr js), (''status'', JStr ''ok'')]"

lemma status_document_built:
  "obj_of [(''status'', JStr ''ok''), (''count'', JInt (int (length js))), (''events'', JArr js)] = status_document js"
  by (simp add: obj_of_def status_document_def less_char_def)

lemma monitor_outcome:
  assumes J: "json_ok J" and inv: "queue_inv p" and n: "n = asked_count (pd_max_event_queue_size p) param"
  shows "\<exists>r l. monitor_file_status J param p = (r, p\<lparr>pd_event_queue := drop n (pd_event_queue p)\<rparr>, l) \<and>
    (if pd_event_queue p = [] then \<exists>rs. r = Inr rs \<and> rs_status rs = 204
     else if \<forall>j \<in> set (take n (pd_event_queue p)). json_utf8 j
     then \<exists>rs. r = Inr rs \<and> rs_status rs = 200 \<and>
       j_dump J (Some 2) (status_document (take n (pd_event_queue p))) = Inr (rs_content rs)
     else r = Inl (Throw Json_type_error))"
proof -
  let ?js = "take n (pd_event_queue p)"
  obtain count l where w: "wanted_count J param (pd_max_event_queue_size p) = (count, l)" by fastforce
  have pos: "0 < count" using wanted_count_range [of J param "pd_max_event_queue_size p"] w by simp
  have n: "n = nat count" using wanted_count_asked [of J param "pd_max_event_queue_size p"] w n by simp
  have g: "get_events_from_queue count p = Inr (JArr ?js, p\<lparr>pd_event_queue := drop n (pd_event_queue p)\<rparr>)"
    using get_events_spec [OF inv pos] n by simp
  have empty: "?js = [] \<longleftrightarrow> pd_event_queue p = []" using pos n by simp
  have "json_utf8 (obj_of [(''status'', JStr ''no_event'')])" by (rule obj_of_utf8) (auto simp: status_keys)
  from json_ok_dump(2) [OF J this] obtain b0 where
    b0: "j_dump J (Some 2) (obj_of [(''status'', JStr ''no_event'')]) = Inr b0" by blast
  have utf8: "json_utf8 (status_document ?js) \<longleftrightarrow> (\<forall>j \<in> set ?js. json_utf8 j)"
    using status_doc_utf8 [of "int (length ?js)" ?js] by (simp only: status_document_built)
  consider "pd_event_queue p = []" | "pd_event_queue p \<noteq> []" "\<forall>j \<in> set ?js. json_utf8 j"
    | "pd_event_queue p \<noteq> []" "\<not> (\<forall>j \<in> set ?js. json_utf8 j)" by blast
  then show ?thesis
  proof cases
    case 1
    then show ?thesis using w g b0 empty by (simp add: monitor_file_status_def answer_def)
  next
    case 2
    then obtain b1 where "j_dump J (Some 2) (status_document ?js) = Inr b1"
      using json_ok_dump(2) [OF J] utf8 by blast
    with 2 show ?thesis
      using w g empty by (simp add: monitor_file_status_def status_document_built answer_def del: length_take)
  next
    case 3
    then have "j_dump J (Some 2) (status_document ?js) = Inl (Throw Json_type_error)"
      using json_ok_dump(1) [OF J] utf8 by blast
    with 3 show ?thesis
      using w g empty by (simp add: monitor_file_status_def status_document_built del: length_take)
  qed
qed

text \<open>An object with a queue of at most two events.\<close>

definition queue_object :: "json list \<Rightarrow> postdata" where
  "queue_object js = sample_object\<lparr>pd_cache_data := True, pd_max_event_queue_size := 2, pd_event_queue := js\<rparr>"

lemma queue_object_inv: "length js \<le> 2 \<Longrightarrow> queue_inv (queue_object js)"
  by (simp add: queue_inv_def queue_object_def)

lemma hosts_event_known: "known_call hosts_event"
  by (simp add: known_call_def hosts_event_def)

lemma no_count: "wanted_count J None n = (10, [])"
  by (simp add: wanted_count_def)

lemma queue_object_simps [simp]:
  "pd_event_queue (queue_object js) = js" "pd_max_event_queue_size (queue_object js) = 2"
  by (simp_all add: queue_object_def)

section \<open>Properties\<close>

text \<open>C14: However many events are cached, the queue never grows past \<open>max_event_queue_size\<close>, never pops
  when empty, and holds exactly the latest events, in the order they came.\<close>

theorem queue_keeps_latest:
  assumes "queue_inv p" and "\<And>e. e \<in> set es \<Longrightarrow> known_call e"
  shows "\<exists>q. cache_events es p = Inr q \<and> queue_inv q \<and>
    pd_event_queue q = drop (length (pd_event_queue p) + length es - nat (pd_max_event_queue_size p))
      (pd_event_queue p @ map event_obj es)"
proof -
  from queue.keeps_latest [OF assms] obtain q where "queue.pushes es p = Some q" "queue_inv q"
    "pd_event_queue q = drop (length (pd_event_queue p) + length es - nat (pd_max_event_queue_size p))
      (pd_event_queue p @ map event_obj es)" by auto
  then show ?thesis using cache_events_pushes [of es p q] by auto
qed

theorem queue_keeps_latest_witness:
  "\<exists>q. cache_events [hosts_event, hosts_event] (queue_object [JNull, JBool True]) = Inr q \<and>
     pd_event_queue q = [event_obj hosts_event, event_obj hosts_event]"
proof -
  have "queue_inv (queue_object [JNull, JBool True])" by (rule queue_object_inv) simp
  from queue_keeps_latest [OF this, of "[hosts_event, hosts_event]"] hosts_event_known show ?thesis by auto
qed

text \<open>C34: As long as the queue respects its bound and the texts of the queued events are UTF-8,
  \<open>GET /monitor_file_status\<close> answers 204 when nothing is queued, and otherwise 200 with the oldest
  events, as many as asked for (the parameter, or ten when it is absent, not a number, less than 1
  or more than \<open>max_event_queue_size\<close>), or all if there are fewer; they leave the queue, and the
  rest stays, in order.\<close>

theorem monitor_status_hands_out_oldest:
  assumes J: "json_ok J" and inv: "queue_inv p" and utf8: "\<forall>j \<in> set (pd_event_queue p). json_utf8 j"
    and n: "n = asked_count (pd_max_event_queue_size p) param"
  shows "\<exists>rs l. monitor_file_status J param p =
      (Inr rs, p\<lparr>pd_event_queue := drop n (pd_event_queue p)\<rparr>, l) \<and> 0 < n \<and>
    rs_status rs = (if pd_event_queue p = [] then 204 else 200) \<and>
    (pd_event_queue p \<noteq> [] \<longrightarrow>
       j_dump J (Some 2) (obj_of [(''status'', JStr ''ok''),
         (''count'', JInt (int (length (take n (pd_event_queue p))))),
         (''events'', JArr (take n (pd_event_queue p)))]) = Inr (rs_content rs))"
proof -
  have "\<forall>j \<in> set (take n (pd_event_queue p)). json_utf8 j" using utf8 by (auto dest: in_set_takeD)
  then show ?thesis
    using monitor_outcome [OF J inv n] asked_count_pos [of "pd_max_event_queue_size p" param] n
    by (auto simp only: status_document_built split: if_splits)
qed

theorem monitor_status_hands_out_oldest_witness:
  "(\<exists>rs q l. monitor_file_status num_json None (queue_object [JNull, JBool True]) = (Inr rs, q, l) \<and>
     rs_status rs = 200 \<and> pd_event_queue q = []) \<and>
   (\<exists>rs q l. monitor_file_status num_json (Some ''1'') (queue_object [JNull, JBool True]) = (Inr rs, q, l) \<and>
     rs_status rs = 200 \<and> pd_event_queue q = [JBool True])"
proof -
  have "queue_inv (queue_object [JNull, JBool True])" by (rule queue_object_inv) simp
  moreover have "asked_count 2 None = 10" "asked_count 2 (Some ''1'') = 1" by code_simp+
  ultimately show ?thesis
    using monitor_status_hands_out_oldest [OF num_json_ok _ _ refl, of "queue_object [JNull, JBool True]" None]
      monitor_status_hands_out_oldest [OF num_json_ok _ _ refl, of "queue_object [JNull, JBool True]" "Some ''1''"]
    by auto
qed

text \<open>C35: When one of the events handed out holds a text that is not UTF-8 (a command name or a file
  name the kernel cut in the middle of a character), the response cannot be printed: the handler
  throws, and the events are lost, since they have left the queue already.\<close>

theorem monitor_status_loses_events:
  assumes "json_ok J" and "queue_inv p"
    and "j \<in> set (take (nat (fst (wanted_count J param (pd_max_event_queue_size p)))) (pd_event_queue p))"
    and "\<not> json_utf8 j"
  shows "\<exists>l. monitor_file_status J param p = (Inl (Throw Json_type_error),
    p\<lparr>pd_event_queue := drop (nat (fst (wanted_count J param (pd_max_event_queue_size p)))) (pd_event_queue p)\<rparr>, l)"
proof -
  let ?n = "asked_count (pd_max_event_queue_size p) param"
  have n: "nat (fst (wanted_count J param (pd_max_event_queue_size p))) = ?n" by (simp add: wanted_count_asked)
  have "pd_event_queue p \<noteq> []" "\<not> (\<forall>j \<in> set (take ?n (pd_event_queue p)). json_utf8 j)"
    using assms(3,4) unfolding n by auto
  then show ?thesis using monitor_outcome [OF assms(1,2) refl, of param] unfolding n by (simp only: if_False) blast
qed

theorem monitor_status_loses_events_witness:
  "\<exists>q l. monitor_file_status num_json None (queue_object [JStr [CHR 0xC0], JNull]) =
     (Inl (Throw Json_type_error), q, l) \<and> pd_event_queue q = []"
proof -
  have inv: "queue_inv (queue_object [JStr [CHR 0xC0], JNull])" by (rule queue_object_inv) simp
  have "\<not> strict_utf8 [CHR 0xC0]"
    by (rule not_strict) (auto simp: strict_unit_def in_range_def byte_of_def take_Cons split: nat.splits)
  then show ?thesis
    using monitor_status_loses_events [OF num_json_ok inv, of "JStr [CHR 0xC0]" None] by (force simp: no_count)
qed

end
