(* ===== verification/ProcTrace.thy ===== *)
theory ProcTrace
  imports EventQueue
begin

text \<open>
  The chain of ancestors of a process that accompanies a published event: the functions
  \<open>generate_proc_trace\<close>, \<open>get_procinfo_by_pid_from_map\<close>, \<open>get_procinfo_by_pid_from_system\<close> and
  \<open>add_ptrace\<close> of \<open>src/post.cpp\<close>. The loop follows parent pids and may not end, so it is a partial
  function into \<open>option\<close>: \<open>None\<close> is a loop that never returns.
\<close>

section \<open>One process\<close>

definition PID_MAX_LIMIT :: nat where "PID_MAX_LIMIT = 4194304"

text \<open>\<open>pinfo\<close> is the buffer the caller passes: a failed lookup leaves it alone.\<close>

definition get_procinfo_by_pid_from_map :: "env \<Rightarrow> pinfo_t \<Rightarrow> u32 \<Rightarrow> (int \<times> pinfo_t) logged" where
  "get_procinfo_by_pid_from_map E pinfo pid =
     (case en_map E pid of
        None \<Rightarrow> ((-1, pinfo), [Log ERROR (''Failed to lookup pinfo for PID '' @ to_string_u pid @ '', ret:'' @
                  to_string_i (en_map_ret E))])
      | Some q \<Rightarrow> ((0, q), [Log INFO (''Found pinfo in map for PID '' @ to_string_u pid @ '': '' @
                  cstr (pi_comm q) @ '', args: '' @ cstr (pi_arg1 q) @ '' '' @ cstr (pi_arg2 q) @ '' '' @
                  cstr (pi_arg3 q) @ '' '' @ cstr (pi_arg4 q))]))"

text \<open>\<open>strncpy(dst, s, n - 1)\<close> and the NUL in the last byte are \<open>to_buf n s\<close>.\<close>

definition get_procinfo_by_pid_from_system :: "env \<Rightarrow> pinfo_t \<Rightarrow> u32 \<Rightarrow>
    fault + (int \<times> pinfo_t) \<times> effect list" where
  "get_procinfo_by_pid_from_system E pinfo pid =
     (if pid = 0 \<or> PID_MAX_LIMIT < unat pid
      then Inr ((-1, pinfo), [Log ERROR (''Invalid PID: '' @ to_string_u pid)])
      else
        (let proc_path = ''/proc/'' @ to_string_u pid @ ''/stat'' in
         case en_stat E pid of
           None \<Rightarrow> Inr ((-1, pinfo), [Log ERROR (''Failed to open stat file: '' @ proc_path)])
         | Some content \<Rightarrow>
             (let line = takeWhile (\<lambda>c. c \<noteq> CHR 0x0A) content in
              case split_stat_line line of Inl x \<Rightarrow> Inl x
              | Inr columns \<Rightarrow>
                  if length columns < 5
                  then Inr ((-1, pinfo), [Log ERROR (proc_path @ '' content invalid.'')])
                  else
                    (case stoul (columns ! 3) of Inl x \<Rightarrow> Inl x
                     | Inr ppid \<Rightarrow>
                         Inr ((0, pinfo\<lparr>pi_pid := ucast ppid,
                                        pi_comm := to_buf MAX_CMD_LEN (columns ! 1)\<rparr>), [])))))"

section \<open>The chain\<close>

definition command_line :: "pinfo_t \<Rightarrow> string" where
  "command_line q = cstr (pi_comm q) @ '' '' @ cstr (pi_arg1 q) @ '' '' @ cstr (pi_arg2 q) @ '' '' @
     cstr (pi_arg3 q) @ '' '' @ cstr (pi_arg4 q)"

text \<open>\<open>add_ptrace\<close>: the element it appends to the \<open>ptrace\<close> array; its \<open>pid\<close> parameter is an \<open>int\<close>.\<close>

definition add_ptrace :: "json list \<Rightarrow> string \<Rightarrow> u32 \<Rightarrow> json list" where
  "add_ptrace ptrace cmd pid = ptrace @ [obj_of [(''cmd'', JStr cmd), (''pid'', JInt (to_int32 pid))]]"

text \<open>The body of the loop up to its \<open>break\<close>: the buffer it filled, or \<open>None\<close> when it leaves.\<close>

definition trace_step :: "env \<Rightarrow> pinfo_t \<Rightarrow> u32 \<Rightarrow> fault + pinfo_t option \<times> effect list" where
  "trace_step E pinfo proc_id =
     (let l0 = [Log INFO (''Generating proc trace for PID: '' @ to_string_u proc_id)];
          ((ret, q), l1) = get_procinfo_by_pid_from_map E pinfo proc_id
      in if ret = 0 then Inr (Some q, l0 @ l1)
         else
           (case get_procinfo_by_pid_from_system E q proc_id of Inl x \<Rightarrow> Inl x
            | Inr ((ret, r), l2) \<Rightarrow>
                if ret \<noteq> 0 then Inr (None, l0 @ l1 @ l2) else Inr (Some r, l0 @ l1 @ l2)))"

partial_function (option) trace_loop :: "env \<Rightarrow> pinfo_t \<Rightarrow> u32 \<Rightarrow> json list \<Rightarrow> effect list \<Rightarrow>
    (fault + json list \<times> effect list) option" where
  "trace_loop E pinfo proc_id ptrace logs =
     (if proc_id = 0 then Some (Inr (ptrace, logs))
      else
        (case trace_step E pinfo proc_id of
           Inl x \<Rightarrow> Some (Inl x)
         | Inr (None, l) \<Rightarrow> Some (Inr (ptrace, logs @ l))
         | Inr (Some q, l) \<Rightarrow>
             trace_loop E q (pi_pid q) (add_ptrace ptrace (sanitize_utf8 (command_line q)) proc_id) (logs @ l)))"

definition generate_proc_trace :: "env \<Rightarrow> u32 \<Rightarrow> (fault + json list \<times> effect list) option" where
  "generate_proc_trace E pid =
     (let l0 = [Log DEBUG (''Generating process trace for PID: '' @ to_string_u pid)] in
      if pid \<le> 1 then Some (Inr ([], l0 @ [Log ERROR (''Invalid PID: '' @ to_string_u pid)]))
      else if \<not> en_malloc E
      then Some (Inr ([], l0 @ [Log ERROR ''Failed to allocate memory for pinfo_t'']))
      else trace_loop E zero_pinfo pid [] l0)"

section \<open>The steps of the loop\<close>

text \<open>The parent a step follows does not depend on what the buffer held before.\<close>

definition parent :: "env \<Rightarrow> u32 \<Rightarrow> u32 option" where
  "parent E pid = (case trace_step E zero_pinfo pid of Inr (Some q, l) \<Rightarrow> Some (pi_pid q) | _ \<Rightarrow> None)"

lemma trace_step_parent:
  "trace_step E pinfo pid = Inr (Some q, l) \<Longrightarrow> parent E pid = Some (pi_pid q)"
  by (auto simp: parent_def trace_step_def get_procinfo_by_pid_from_map_def
      get_procinfo_by_pid_from_system_def Let_def split: option.splits sum.splits if_splits)

lemma trace_step_no_parent:
  "trace_step E pinfo pid = Inr (None, l) \<Longrightarrow> parent E pid = None"
  by (auto simp: parent_def trace_step_def get_procinfo_by_pid_from_map_def
      get_procinfo_by_pid_from_system_def Let_def split: option.splits sum.splits if_splits)

lemma trace_step_fault:
  "trace_step E pinfo pid = Inl x \<Longrightarrow> parent E pid = None"
  by (auto simp: parent_def trace_step_def get_procinfo_by_pid_from_map_def
      get_procinfo_by_pid_from_system_def Let_def split: option.splits sum.splits if_splits)

text \<open>The pids the loop goes through, to its end; that they are the ancestors is shown further below.\<close>

fun chain :: "env \<Rightarrow> u32 \<Rightarrow> u32 list \<Rightarrow> bool" where
  "chain E pid [] \<longleftrightarrow> pid = 0 \<or> parent E pid = None"
| "chain E pid (x # xs) \<longleftrightarrow> x = pid \<and> pid \<noteq> 0 \<and> (\<exists>q. parent E pid = Some q \<and> chain E q xs)"

definition entry_pids :: "json list \<Rightarrow> json list" where
  "entry_pids js = map (\<lambda>j. case at_const j ''pid'' of Inr v \<Rightarrow> v | Inl _ \<Rightarrow> JNull) js"

lemma trace_loop_root: "trace_loop E pinfo 0 js l = Some (Inr (js, l))"
  by (subst trace_loop.simps) simp

lemma trace_loop_step:
  "pid \<noteq> 0 \<Longrightarrow> trace_step E pinfo pid = Inr (Some q, l') \<Longrightarrow>
   trace_loop E pinfo pid js l =
     trace_loop E q (pi_pid q) (add_ptrace js (sanitize_utf8 (command_line q)) pid) (l @ l')"
  "pid \<noteq> 0 \<Longrightarrow> trace_step E pinfo pid = Inr (None, l') \<Longrightarrow> trace_loop E pinfo pid js l = Some (Inr (js, l @ l'))"
  "pid \<noteq> 0 \<Longrightarrow> trace_step E pinfo pid = Inl x \<Longrightarrow> trace_loop E pinfo pid js l = Some (Inl x)"
  by (subst trace_loop.simps, simp)+

lemma trace_step_cases [case_names fault stop go]:
  obtains x where "trace_step E pinfo pid = Inl x" and "parent E pid = None"
  | l where "trace_step E pinfo pid = Inr (None, l)" and "parent E pid = None"
  | q l where "trace_step E pinfo pid = Inr (Some q, l)" and "parent E pid = Some (pi_pid q)"
  by (metis not_Some_eq old.sum.exhaust prod.exhaust trace_step_fault trace_step_no_parent trace_step_parent)

text \<open>The loop returns when the chain of parents ends.\<close>

lemma chain_returns: "chain E pid xs \<Longrightarrow> \<exists>r. trace_loop E pinfo pid js l = Some r"
proof (induction xs arbitrary: pid pinfo js l)
  case Nil
  show ?case
  proof (cases "pid = 0")
    case False
    then have none: "parent E pid = None" using Nil by simp
    show ?thesis
      by (cases rule: trace_step_cases [of E pinfo pid]) (use none False trace_loop_step in auto)
  qed (simp add: trace_loop_root)
next
  case (Cons x xs)
  then obtain q where q: "pid \<noteq> 0" "parent E pid = Some q" "chain E q xs" by auto
  show ?case
  proof (cases rule: trace_step_cases [of E pinfo pid])
    case (go r l')
    then have "q = pi_pid r" using q(2) by simp
    with Cons.IH [OF q(3)] show ?thesis using trace_loop_step(1) [OF q(1) go(1)] by simp
  qed (use q in simp_all)
qed

text \<open>What a loop that returns has listed.\<close>

lemma trace_loop_lists:
  assumes "trace_loop E pinfo pid js l = Some r"
  shows "\<exists>xs. chain E pid xs \<and> (\<forall>js' l'. r = Inr (js', l') \<longrightarrow>
    (\<exists>more. js' = js @ more \<and> entry_pids more = map (\<lambda>x. JInt (to_int32 x)) xs))"
  using assms
proof (induction rule: trace_loop.raw_induct)
  case (1 loop E pinfo pid js l r)
  show ?case
  proof (cases "pid = 0")
    case True
    then show ?thesis using 1(2) by (intro exI [of _ "[]"]) (auto simp: entry_pids_def)
  next
    case False
    show ?thesis
    proof (cases rule: trace_step_cases [of E pinfo pid])
      case (fault x)
      then show ?thesis using 1(2) False by (intro exI [of _ "[]"]) auto
    next
      case (stop l')
      then show ?thesis using 1(2) False by (intro exI [of _ "[]"]) (auto simp: entry_pids_def)
    next
      case (go q l')
      let ?js = "add_ptrace js (sanitize_utf8 (command_line q)) pid"
      have lp: "loop E q (pi_pid q) ?js (l @ l') = Some r" using 1(2) False go(1) by simp
      have tl: "trace_loop E q (pi_pid q) ?js (l @ l') = Some r"
        using 1(3) trace_loop_step(1) [OF False go(1)] by simp
      from 1(1) [OF lp tl] obtain xs where xs: "chain E (pi_pid q) xs" "\<And>js' l'. r = Inr (js', l') \<Longrightarrow>
        \<exists>more. js' = ?js @ more \<and> entry_pids more = map (\<lambda>x. JInt (to_int32 x)) xs"
        by auto
      have "chain E pid (pid # xs)" using False go(2) xs(1) by simp
      moreover have "\<exists>more. js' = js @ more \<and> entry_pids more = map (\<lambda>x. JInt (to_int32 x)) (pid # xs)"
        if r: "r = Inr (js', l'')" for js' l''
      proof -
        from xs(2) [OF r] obtain more where more: "js' = ?js @ more"
          "entry_pids more = map (\<lambda>x. JInt (to_int32 x)) xs" by blast
        let ?more = "obj_of [(''cmd'', JStr (sanitize_utf8 (command_line q))), (''pid'', JInt (to_int32 pid))] # more"
        have "js' = js @ ?more" using more(1) by (simp add: add_ptrace_def)
        moreover have "entry_pids ?more = map (\<lambda>x. JInt (to_int32 x)) (pid # xs)"
          using more(2) by (simp add: entry_pids_def obj_of_def at_const_def)
        ultimately show ?thesis by blast
      qed
      ultimately show ?thesis by blast
    qed
  qed
qed (rule assms)

lemma trace_loop_returns_iff: "trace_loop E pinfo pid js l \<noteq> None \<longleftrightarrow> (\<exists>xs. chain E pid xs)"
  using chain_returns trace_loop_lists by (metis not_Some_eq)

lemma trace_step_logs: "trace_step E pinfo pid = Inr (q, l) \<Longrightarrow> \<forall>x \<in> set l. is_log x"
  by (auto simp: trace_step_def get_procinfo_by_pid_from_map_def get_procinfo_by_pid_from_system_def Let_def
      split: option.splits sum.splits if_splits)

lemma trace_loop_logs:
  assumes "trace_loop E pinfo pid js l = Some r"
  shows "\<forall>js' l'. r = Inr (js', l') \<longrightarrow> (\<forall>x \<in> set l. is_log x) \<longrightarrow> (\<forall>x \<in> set l'. is_log x)"
  using assms
proof (induction rule: trace_loop.raw_induct)
  case (1 loop E pinfo pid js l r)
  show ?case
  proof (cases "pid = 0")
    case False
    show ?thesis
    proof (cases rule: trace_step_cases [of E pinfo pid])
      case (go q l')
      then have "loop E q (pi_pid q) (add_ptrace js (sanitize_utf8 (command_line q)) pid) (l @ l') = Some r"
        using 1(2) False by simp
      moreover have "trace_loop E q (pi_pid q) (add_ptrace js (sanitize_utf8 (command_line q)) pid) (l @ l') = Some r"
        using 1(3) trace_loop_step(1) [OF False go(1)] by simp
      ultimately have "\<forall>js'' l''. r = Inr (js'', l'') \<longrightarrow> (\<forall>x \<in> set (l @ l'). is_log x) \<longrightarrow> (\<forall>x \<in> set l''. is_log x)"
        by (rule 1(1))
      then show ?thesis using trace_step_logs [OF go(1)] by auto
    qed (use 1(2) False trace_step_logs in auto)
  qed (use 1(2) in auto)
qed (rule assms)

lemma generate_proc_trace_logs:
  "generate_proc_trace E pid = Some (Inr (js, l)) \<Longrightarrow> \<forall>x \<in> set l. is_log x"
  by (auto simp: generate_proc_trace_def Let_def split: if_splits dest!: trace_loop_logs)

lemma chain_unique: "chain E pid xs \<Longrightarrow> chain E pid ys \<Longrightarrow> xs = ys"
proof (induction xs arbitrary: pid ys)
  case Nil
  then show ?case by (cases ys) auto
next
  case (Cons x xs)
  then show ?case by (cases ys) auto
qed

lemma system_keeps_arguments:
  "get_procinfo_by_pid_from_system E q pid = Inr ((0, r), l) \<Longrightarrow>
   pi_arg1 r = pi_arg1 q \<and> pi_arg2 r = pi_arg2 q \<and> pi_arg3 r = pi_arg3 q \<and> pi_arg4 r = pi_arg4 q"
  by (auto simp: get_procinfo_by_pid_from_system_def Let_def split: if_splits option.splits sum.splits)

lemma trace_step_map:
  "en_map E pid = Some q \<Longrightarrow> \<exists>l. trace_step E pinfo pid = Inr (Some q, l)"
  by (simp add: trace_step_def get_procinfo_by_pid_from_map_def)

lemma trace_step_system:
  "en_map E pid = None \<Longrightarrow> get_procinfo_by_pid_from_system E q pid = Inr ((0, r), l) \<Longrightarrow>
   \<exists>l'. trace_step E q pid = Inr (Some r, l')"
  by (simp add: trace_step_def get_procinfo_by_pid_from_map_def)

lemma generate_is_loop:
  "1 < pid \<Longrightarrow> en_malloc E \<Longrightarrow> \<exists>l. generate_proc_trace E pid = trace_loop E zero_pinfo pid [] l"
  by (auto simp: generate_proc_trace_def Let_def not_le [symmetric])

section \<open>Ancestors\<close>

text \<open>
  Who the ancestors of a process are, said without the code. The kernel writes \<open>/proc/<pid>/stat\<close> as the
  pid, the command name in parentheses, the state, the pid of the parent and more fields. The parent of a
  process is the one recorded when it was started, or else the one of that line; pids above the limit of
  the system have no such file.
\<close>

definition proc_stat :: "u32 \<Rightarrow> u32 \<Rightarrow> string \<Rightarrow> bool" where
  "proc_stat pid ppid content \<longleftrightarrow> (\<exists>comm state rest.
     takeWhile (\<lambda>c. c \<noteq> CHR 0x0A) content =
       to_string_u pid @ '' ('' @ comm @ '') '' @ state # '' '' @ to_string_u ppid @ '' '' @ rest \<and>
     \<not> is_space state \<and> rest \<noteq> [] \<and> \<not> is_space (hd rest) \<and> CHR '')'' \<notin> insert state (set rest) \<and>
     length content < 2 ^ 63)"

inductive has_parent :: "env \<Rightarrow> u32 \<Rightarrow> u32 \<Rightarrow> bool" for E where
  recorded: "pid \<noteq> 0 \<Longrightarrow> en_map E pid = Some q \<Longrightarrow> has_parent E pid (pi_pid q)"
| in_proc: "pid \<noteq> 0 \<Longrightarrow> unat pid \<le> 4194304 \<Longrightarrow> en_map E pid = None \<Longrightarrow> en_stat E pid = Some content \<Longrightarrow>
    proc_stat pid ppid content \<Longrightarrow> has_parent E pid ppid"

text \<open>A process and its ancestors, up to pid 0 or to a process nothing is known of.\<close>

inductive ancestry :: "env \<Rightarrow> u32 \<Rightarrow> u32 list \<Rightarrow> bool" for E where
  top: "ancestry E 0 []"
| unknown: "pid \<noteq> 0 \<Longrightarrow> en_map E pid = None \<Longrightarrow> en_stat E pid = None \<or> 4194304 < unat pid \<Longrightarrow> ancestry E pid []"
| child: "has_parent E pid q \<Longrightarrow> ancestry E q xs \<Longrightarrow> ancestry E pid (pid # xs)"

text \<open>The lines are parsed as written.\<close>

lemma digits_free: "\<not> is_digit c \<Longrightarrow> c \<notin> set (to_string_u w)"
  using dec_of_nat_digits by (auto simp: to_string_u_def)

lemma number_not_space: "c \<in> set (to_string_u w) \<Longrightarrow> \<not> is_space c"
  using dec_of_nat_digits digit_not_space by (auto simp: to_string_u_def)

lemma proc_stat_columns:
  assumes "proc_stat pid ppid content"
  shows "\<exists>columns. split_stat_line (takeWhile (\<lambda>c. c \<noteq> CHR 0x0A) content) = Inr columns \<and> 5 \<le> length columns \<and>
    columns ! 3 = to_string_u ppid"
proof -
  obtain comm state rest where
    line: "takeWhile (\<lambda>c. c \<noteq> CHR 0x0A) content =
      to_string_u pid @ '' ('' @ comm @ '') '' @ state # '' '' @ to_string_u ppid @ '' '' @ rest"
    and f: "\<not> is_space state" "rest \<noteq> []" "\<not> is_space (hd rest)" "CHR '')'' \<notin> insert state (set rest)"
      "length content < 2 ^ 63"
    using assms unfolding proc_stat_def by blast
  let ?fields = "state # '' '' @ to_string_u ppid @ '' '' @ rest"
  have no: "CHR '' '' \<notin> set (to_string_u pid)" "CHR ''('' \<notin> set (to_string_u pid)" "CHR '')'' \<notin> set ?fields"
    using f(4) by (auto simp: digits_free is_digit_def)
  have "length (takeWhile (\<lambda>c. c \<noteq> CHR 0x0A) content) < 2 ^ 63"
    using f(5) length_takeWhile_le [of "\<lambda>c. c \<noteq> CHR 0x0A" content] by linarith
  then have "fits (to_string_u pid @ '' ('' @ comm @ '') '' @ ?fields)" by (simp only: fits_def line)
  from split_stat_line_ok [OF no this] have split: "split_stat_line (takeWhile (\<lambda>c. c \<noteq> CHR 0x0A) content) =
      Inr (to_string_u pid # (''('' @ comm @ '')'') # tokens ?fields)"
    by (simp only: line)
  have sp: "is_space (CHR '' '')" by (simp add: is_space_def)
  have "to_string_u ppid \<noteq> []" by (simp add: to_string_u_def)
  then have "tokens ?fields = [state] # to_string_u ppid # tokens rest"
    using tokens_cons [of "[state]" "to_string_u ppid @ '' '' @ rest"] f(1)
      tokens_cons [of "to_string_u ppid" rest] number_not_space [of _ ppid]
    by (simp add: tokens_space [OF sp])
  moreover have "dropWhile is_space rest = rest" using f(2,3) by (cases rest) auto
  from tokens_step [OF this f(2)] obtain w ws where "tokens rest = w # ws" by blast
  ultimately show ?thesis using split by simp
qed

lemma proc_stat_parsed:
  assumes "proc_stat pid ppid content" and "pid \<noteq> 0" and "unat pid \<le> 4194304" and "en_stat E pid = Some content"
  shows "\<exists>r. get_procinfo_by_pid_from_system E q pid = Inr ((0, r), []) \<and> pi_pid r = ppid"
proof -
  obtain columns where c: "split_stat_line (takeWhile (\<lambda>c. c \<noteq> CHR 0x0A) content) = Inr columns"
    "5 \<le> length columns" "columns ! 3 = to_string_u ppid"
    using proc_stat_columns [OF assms(1)] by blast
  have "(ucast (ucast ppid :: u64) :: u32) = ppid" by (rule bit_word_eqI) (simp add: bit_simps)
  then show ?thesis
    using assms(2-4) c by (simp add: get_procinfo_by_pid_from_system_def PID_MAX_LIMIT_def stoul_to_string_u32)
qed

lemma has_parent_step:
  assumes "has_parent E pid p"
  shows "pid \<noteq> 0" and "\<exists>q l. trace_step E pinfo pid = Inr (Some q, l) \<and> pi_pid q = p"
proof -
  show "pid \<noteq> 0" using assms by cases
  show "\<exists>q l. trace_step E pinfo pid = Inr (Some q, l) \<and> pi_pid q = p"
    using assms
  proof cases
    case (recorded q)
    then show ?thesis using trace_step_map [of E pid q pinfo] by blast
  next
    case (in_proc content)
    from proc_stat_parsed [OF in_proc(5,1,2,4), of pinfo] obtain r where
      "get_procinfo_by_pid_from_system E pinfo pid = Inr ((0, r), [])" "pi_pid r = p" by blast
    with trace_step_system [OF in_proc(3) this(1)] show ?thesis by blast
  qed
qed

lemma unknown_stops:
  assumes "en_map E pid = None" and "en_stat E pid = None \<or> 4194304 < unat pid"
  shows "\<exists>l. trace_step E pinfo pid = Inr (None, l)"
  using assms by (auto simp: trace_step_def get_procinfo_by_pid_from_map_def get_procinfo_by_pid_from_system_def
      PID_MAX_LIMIT_def)

text \<open>The loop lists an ancestry that ends.\<close>

lemma trace_loop_ancestry:
  "ancestry E pid xs \<Longrightarrow> \<exists>more l'. trace_loop E pinfo pid js l = Some (Inr (js @ more, l')) \<and>
     entry_pids more = map (\<lambda>x. JInt (to_int32 x)) xs"
proof (induction arbitrary: pinfo js l rule: ancestry.induct)
  case top
  show ?case by (simp add: trace_loop_root entry_pids_def)
next
  case (unknown pid)
  then show ?case
    using unknown_stops [of E pid pinfo] trace_loop_step(2) [of pid E pinfo] by (force simp: entry_pids_def)
next
  case (child pid p xs)
  obtain q l' where q: "trace_step E pinfo pid = Inr (Some q, l')" "pi_pid q = p"
    using has_parent_step(2) [OF child(1)] by blast
  let ?entry = "obj_of [(''cmd'', JStr (sanitize_utf8 (command_line q))), (''pid'', JInt (to_int32 pid))]"
  obtain more l'' where more: "trace_loop E q p (js @ [?entry]) (l @ l') = Some (Inr ((js @ [?entry]) @ more, l''))"
    "entry_pids more = map (\<lambda>x. JInt (to_int32 x)) xs"
    using child.IH by blast
  have "trace_loop E pinfo pid js l = Some (Inr (js @ (?entry # more), l''))"
    using trace_loop_step(1) [OF has_parent_step(1) [OF child(1)] q(1)] more(1) q(2) by (simp add: add_ptrace_def)
  moreover have "entry_pids (?entry # more) = map (\<lambda>x. JInt (to_int32 x)) (pid # xs)"
    using more(2) by (simp add: entry_pids_def obj_of_def at_const_def)
  ultimately show ?case by blast
qed

text \<open>An ancestry that turns back on itself has no end; any other has one.\<close>

definition proc_ok :: "env \<Rightarrow> bool" where
  "proc_ok E \<longleftrightarrow> (\<forall>pid content. en_stat E pid = Some content \<longrightarrow> (\<exists>ppid. proc_stat pid ppid content))"

definition cyclic :: "env \<Rightarrow> u32 \<Rightarrow> bool" where
  "cyclic E pid \<longleftrightarrow> (\<exists>a. (has_parent E)\<^sup>*\<^sup>* pid a \<and> (has_parent E)\<^sup>+\<^sup>+ a a)"

lemma chain_up:
  assumes "has_parent E a b" and "chain E a xs"
  shows "\<exists>ys. chain E b ys \<and> length ys < length xs"
proof -
  obtain q l where "trace_step E zero_pinfo a = Inr (Some q, l)" "pi_pid q = b"
    using has_parent_step(2) [OF assms(1)] by blast
  then have "parent E a = Some b" using trace_step_parent by blast
  with assms(2) has_parent_step(1) [OF assms(1)] show ?thesis by (cases xs) auto
qed

lemma chain_up_plus: "(has_parent E)\<^sup>+\<^sup>+ a b \<Longrightarrow> chain E a xs \<Longrightarrow> \<exists>ys. chain E b ys \<and> length ys < length xs"
proof (induction rule: tranclp_induct)
  case (step b c)
  then show ?case using chain_up by (meson less_trans)
qed (rule chain_up)

lemma cyclic_endless:
  assumes "cyclic E pid"
  shows "\<not> chain E pid xs"
proof
  assume c: "chain E pid xs"
  obtain a where a: "(has_parent E)\<^sup>*\<^sup>* pid a" "(has_parent E)\<^sup>+\<^sup>+ a a" using assms by (auto simp: cyclic_def)
  from a(1) c obtain ys where ys: "chain E a ys"
    by (metis rtranclpD chain_up_plus)
  with chain_up_plus [OF a(2)] chain_unique show False by (metis less_irrefl)
qed

lemma ancestry_ends:
  fixes pid :: u32
  assumes "proc_ok E" and "\<not> cyclic E pid"
  shows "\<exists>xs. ancestry E pid xs"
proof -
  let ?R = "{(q, p). has_parent E p q \<and> (has_parent E)\<^sup>*\<^sup>* pid p}"
  have climb: "(has_parent E)\<^sup>+\<^sup>+ p q \<and> (has_parent E)\<^sup>*\<^sup>* pid p" if "(q, p) \<in> ?R\<^sup>+" for p q
    using that by (induction rule: trancl_induct) (auto intro: tranclp_into_tranclp2)
  have "acyclic ?R" using climb assms(2) unfolding acyclic_def cyclic_def by blast
  then have wf: "wf ?R" by (intro finite_acyclic_wf) (rule finite)
  have "(has_parent E)\<^sup>*\<^sup>* pid p \<longrightarrow> (\<exists>xs. ancestry E p xs)" for p
    using wf
  proof (induction p rule: wf_induct_rule)
    case (less p)
    have up: "\<exists>xs. ancestry E p xs" if "has_parent E p q" "(has_parent E)\<^sup>*\<^sup>* pid p" for q
      using less [of q] that rtranclp.rtrancl_into_rtrancl [OF that(2,1)] by (auto intro: child)
    show ?case
    proof (cases "p = 0")
      case False
      show ?thesis
      proof (cases "en_map E p")
        case (Some q)
        with up recorded [OF False] show ?thesis by blast
      next
        case None
        show ?thesis
        proof (cases "en_stat E p = None \<or> 4194304 < unat p")
          case False
          then obtain content where "en_stat E p = Some content" by auto
          moreover from this obtain ppid where "proc_stat p ppid content"
            using assms(1) unfolding proc_ok_def by blast
          ultimately have "has_parent E p ppid"
            using in_proc [OF \<open>p \<noteq> 0\<close> _ None] False by simp
          with up show ?thesis by blast
        qed (use unknown None \<open>p \<noteq> 0\<close> in blast)
      qed
    qed (use top in blast)
  qed
  then show ?thesis by blast
qed

text \<open>A world with an empty \<open>/proc\<close> and the given map, and one with a \<open>/proc\<close> entry for process 2.\<close>

definition map_env :: "(u32 \<Rightarrow> pinfo_t option) \<Rightarrow> (u32 \<Rightarrow> string option) \<Rightarrow> env" where
  "map_env m st = \<lparr>en_json = num_json, en_prom = list_prom, en_now = 1000, en_user = (\<lambda>_. None),
     en_group = (\<lambda>_. None), en_logins = [], en_map = m, en_map_ret = -2, en_stat = st, en_malloc = True,
     en_curl_init = True, en_curl = (\<lambda>_ _. Inr 200)\<rparr>"

definition child_of :: "u32 \<Rightarrow> pinfo_t" where
  "child_of ppid = zero_pinfo\<lparr>pi_pid := ppid, pi_comm := to_buf MAX_CMD_LEN ''vi'',
     pi_arg1 := to_buf ARGSIZE ''/etc/hosts''\<rparr>"

definition stat_2 :: "u32 \<Rightarrow> string option" where
  "stat_2 pid = (if pid = 2 then Some ''2 (sshd) S 0 2 2'' else None)"

lemma to_string_small: "to_string_u (0 :: u32) = ''0''" "to_string_u (2 :: u32) = ''2''"
  by (simp_all add: to_string_u_def dec_of_nat.simps digit_char_def)

lemma proc_stat_2: "proc_stat 2 0 ''2 (sshd) S 0 2 2''"
  unfolding proc_stat_def to_string_small
  by (rule exI [of _ "''sshd''"], rule exI [of _ "CHR ''S''"], rule exI [of _ "''2 2''"]) (simp add: is_space_def)

lemma family_ancestry: "ancestry (map_env [7 \<mapsto> child_of 2] stat_2) 7 [7, 2]"
proof (rule child)
  show "has_parent (map_env [7 \<mapsto> child_of 2] stat_2) 7 2"
    using recorded [of 7 "map_env [7 \<mapsto> child_of 2] stat_2" "child_of 2"] by (simp add: map_env_def child_of_def)
  have "has_parent (map_env [7 \<mapsto> child_of 2] stat_2) 2 0"
    by (rule in_proc [OF _ _ _ _ proc_stat_2]) (simp_all add: map_env_def stat_2_def)
  then show "ancestry (map_env [7 \<mapsto> child_of 2] stat_2) 2 [2]" by (rule child [OF _ top])
qed

section \<open>Properties\<close>

text \<open>C10: When there is memory for the walk and following parents from a process with a pid above 1
  ends, at pid 0 or at a process neither the map nor \<open>/proc\<close> knows, the trace is generated without
  an exception and lists exactly the process and its ancestors, youngest first, each with its pid: a
  parent is taken from the map of started processes or, for a process that is not in it, from the
  line the kernel gives in \<open>/proc/<pid>/stat\<close>.\<close>

theorem proc_trace_lists_ancestors:
  assumes "1 < pid" and "en_malloc E" and "ancestry E pid xs"
  shows "\<exists>js l. generate_proc_trace E pid = Some (Inr (js, l)) \<and>
    entry_pids js = map (\<lambda>x. JInt (to_int32 x)) xs"
proof -
  obtain l where "generate_proc_trace E pid = trace_loop E zero_pinfo pid [] l"
    using generate_is_loop [OF assms(1,2)] by blast
  with trace_loop_ancestry [OF assms(3), of zero_pinfo "[]" l] show ?thesis by auto
qed

theorem proc_trace_lists_ancestors_witness:
  "\<exists>js l. generate_proc_trace (map_env [7 \<mapsto> child_of 2] stat_2) 7 = Some (Inr (js, l)) \<and>
     entry_pids js = [JInt 7, JInt 2]"
proof -
  have "en_malloc (map_env [7 \<mapsto> child_of 2] stat_2)" by (simp add: map_env_def)
  from proc_trace_lists_ancestors [OF _ this family_ancestry] show ?thesis by (simp add: to_int32_def)
qed

text \<open>C11: For a pid above 1 and with memory for the walk, as long as the lines under \<open>/proc\<close> have
  the format of the kernel, the process trace is generated, without an exception, if and only if
  following parents from the process never leads into a cycle; if it does, the generation never
  returns.\<close>

theorem proc_trace_returns_iff:
  assumes "1 < pid" and "en_malloc E" and "proc_ok E"
  shows "if \<exists>a. (has_parent E)\<^sup>*\<^sup>* pid a \<and> (has_parent E)\<^sup>+\<^sup>+ a a
    then generate_proc_trace E pid = None
    else \<exists>js l. generate_proc_trace E pid = Some (Inr (js, l))"
proof -
  obtain l where g: "generate_proc_trace E pid = trace_loop E zero_pinfo pid [] l"
    using generate_is_loop [OF assms(1,2)] by blast
  have "generate_proc_trace E pid = None" if "cyclic E pid"
    using trace_loop_returns_iff [of E zero_pinfo pid "[]" l] cyclic_endless [OF that] g by auto
  moreover have "\<exists>js l. generate_proc_trace E pid = Some (Inr (js, l))" if "\<not> cyclic E pid"
    using ancestry_ends [OF assms(3) that] trace_loop_ancestry g by fastforce
  ultimately show ?thesis unfolding cyclic_def [symmetric] by simp
qed

theorem proc_trace_returns_iff_witness:
  "(\<exists>js l. generate_proc_trace (map_env [7 \<mapsto> child_of 1] (\<lambda>_. None)) 7 = Some (Inr (js, l))) \<and>
   generate_proc_trace (map_env [7 \<mapsto> child_of 7] (\<lambda>_. None)) 7 = None"
proof -
  let ?E = "map_env [7 \<mapsto> child_of 1] (\<lambda>_. None)" and ?F = "map_env [7 \<mapsto> child_of 7] (\<lambda>_. None)"
  have ok: "en_malloc ?E" "en_malloc ?F" "proc_ok ?E" "proc_ok ?F" by (simp_all add: map_env_def proc_ok_def)
  have E: "has_parent ?E a b \<longleftrightarrow> a = 7 \<and> b = 1" for a b
    by (auto simp: has_parent.simps map_env_def child_of_def split: if_splits)
  have "(has_parent ?E)\<^sup>+\<^sup>+ a b \<Longrightarrow> a = 7 \<and> b = 1" for a b
    by (induction rule: tranclp_induct) (auto simp: E)
  then have "\<not> (\<exists>a. (has_parent ?E)\<^sup>*\<^sup>* 7 a \<and> (has_parent ?E)\<^sup>+\<^sup>+ a a)" by fastforce
  moreover have "has_parent ?F 7 7"
    using recorded [of 7 ?F "child_of 7"] by (simp add: map_env_def child_of_def)
  then have "\<exists>a. (has_parent ?F)\<^sup>*\<^sup>* 7 a \<and> (has_parent ?F)\<^sup>+\<^sup>+ a a" by blast
  ultimately show ?thesis
    using proc_trace_returns_iff [of 7 ?E] proc_trace_returns_iff [of 7 ?F] ok by simp
qed

text \<open>Two entries of the map that name each other as parent, as recycled pids can leave them since
  entries are never deleted, keep the generation of the trace from ever returning: the polling thread
  of the daemon hangs.\<close>

lemma proc_trace_hangs_on_cycle:
  assumes "1 < a" and "b \<noteq> 0" and "en_malloc E"
    and "en_map E a = Some qa" and "pi_pid qa = b" and "en_map E b = Some qb" and "pi_pid qb = a"
  shows "generate_proc_trace E a = None"
proof -
  have a: "a \<noteq> 0" using assms(1) by auto
  have p: "parent E a = Some b" "parent E b = Some a"
    using trace_step_parent trace_step_map assms(4-7) by metis+
  have "\<not> chain E a xs \<and> \<not> chain E b xs" for xs
    by (induction xs) (use a assms(2) p in auto)
  then show ?thesis
    using generate_is_loop [OF assms(1,3)] trace_loop_returns_iff [of E zero_pinfo a] by auto
qed

text \<open>An ancestor that is only known to \<open>/proc\<close> is reported with the arguments of the descendant
  looked up before it: the buffer is not cleared between the two.\<close>

lemma proc_trace_stale_arguments:
  assumes "1 < a" and "b \<noteq> 0" and "en_malloc E" and "en_map E a = Some qa" and "pi_pid qa = b"
    and "en_map E b = None" and "get_procinfo_by_pid_from_system E qa b = Inr ((0, r), l0)"
    and "generate_proc_trace E a = Some (Inr (js, l))"
  shows "\<exists>first more. js = first # obj_of [(''cmd'', JStr (sanitize_utf8 (cstr (pi_comm r) @ '' '' @
      cstr (pi_arg1 qa) @ '' '' @ cstr (pi_arg2 qa) @ '' '' @ cstr (pi_arg3 qa) @ '' '' @ cstr (pi_arg4 qa)))),
      (''pid'', JInt (to_int32 b))] # more"
proof -
  have a: "a \<noteq> 0" using assms(1) by auto
  obtain lg where g: "generate_proc_trace E a = trace_loop E zero_pinfo a [] lg"
    using generate_is_loop [OF assms(1,3)] by blast
  obtain l1 where s1: "trace_step E zero_pinfo a = Inr (Some qa, l1)" using trace_step_map [OF assms(4)] by blast
  obtain l2 where s2: "trace_step E qa b = Inr (Some r, l2)" using trace_step_system [OF assms(6,7)] by blast
  note args = system_keeps_arguments [OF assms(7)]
  have "trace_loop E r (pi_pid r) (add_ptrace (add_ptrace [] (sanitize_utf8 (command_line qa)) a)
      (sanitize_utf8 (command_line r)) b) ((lg @ l1) @ l2) = Some (Inr (js, l))"
    using assms(5,8) g trace_loop_step(1) [OF a s1] trace_loop_step(1) [OF assms(2) s2] by simp
  from trace_loop_lists [OF this] show ?thesis
    using args by (auto simp: add_ptrace_def command_line_def)
qed

end
