(* ===== verification/Dispatch.thy ===== *)
theory Dispatch
  imports EventFilter ProcTrace
begin

text \<open>
  What happens to an event that arrives from the ring buffer: \<open>handle_event\<close> of \<open>src/filetrace.cpp\<close>
  and \<open>process_event\<close>, \<open>send\<close>, \<open>print_event\<close>, \<open>convert_to_string\<close> and the three lookups of
  \<open>src/post.cpp\<close>. Everything below \<open>convert_to_string\<close> is an \<open>option\<close>, because the process trace
  may not return. The locale \<open>gatekeeper\<close> is the contract of \<open>process_event\<close>: the filter decides
  before anything is done.
\<close>

section \<open>Users and logins\<close>

definition get_username_by_uid :: "env \<Rightarrow> u32 \<Rightarrow> string" where
  "get_username_by_uid E uid = (case en_user E uid of Some name \<Rightarrow> name | None \<Rightarrow> to_string_u uid)"

definition get_groupname_by_gid :: "env \<Rightarrow> u32 \<Rightarrow> string" where
  "get_groupname_by_gid E gid = (case en_group E gid of Some name \<Rightarrow> name | None \<Rightarrow> to_string_u gid)"

text \<open>The loop over the utmp records, which stops at the first match.\<close>

fun first_login :: "string \<Rightarrow> string \<Rightarrow> (bool \<times> string \<times> string) list \<Rightarrow> string" where
  "first_login username clientip [] = clientip"
| "first_login username clientip ((user_process, ut_user, ut_host) # ups) =
     (if user_process \<and> ut_user = username \<and> str_find ut_host (CHR ''.'') 0 \<noteq> npos then ut_host
      else first_login username clientip ups)"

definition get_loginip_by_username :: "env \<Rightarrow> string \<Rightarrow> string" where
  "get_loginip_by_username E username =
     (if username = [] then ''127.0.0.1'' else first_login username ''127.0.0.1'' (en_logins E))"

section \<open>The published document\<close>

definition published_file :: "event \<Rightarrow> string logged" where
  "published_file e =
     (if ev_flag e = flag_code SYS_write \<or> ev_flag e = flag_code SYS_copy_file_range
      then get_full_path e else (cstr (ev_filename e), []))"

definition event_document :: "env \<Rightarrow> postdata \<Rightarrow> event \<Rightarrow> string \<Rightarrow> json list \<Rightarrow> string \<Rightarrow> json" where
  "event_document E p e syscall ptrace file =
     (let username = get_username_by_uid E (ev_uid e); groupname = get_groupname_by_gid E (ev_gid e)
      in obj_of
        [(''ptrace'', JArr ptrace), (''host_id'', JStr (pd_host_id p)),
         (''domain_name'', JStr (pd_domain_name p)), (''cluster_id'', JStr (pd_cluster_id p)),
         (''flag'', JInt (ev_flag e)), (''syscall'', JStr syscall), (''file'', JStr file),
         (''user'', JStr username), (''group'', JStr groupname), (''pid'', JInt (uint (ev_pid e))),
         (''inode'', JInt (uint (ev_i_ino e))), (''cmd'', JStr (cstr (ev_cmd e))),
         (''loginip'', JStr (get_loginip_by_username E username))])"

definition convert_to_string :: "env \<Rightarrow> postdata \<Rightarrow> event \<Rightarrow> (fault + string \<times> effect list) option" where
  "convert_to_string E p e =
     (case generate_proc_trace E (ev_pid e) of
        None \<Rightarrow> None
      | Some (Inl x) \<Rightarrow> Some (Inl x)
      | Some (Inr (ptrace, l1)) \<Rightarrow>
          (case nr_name (ev_flag e) of Inl x \<Rightarrow> Some (Inl x)
           | Inr syscall \<Rightarrow>
               (let (file, l2) = published_file e in
                case j_dump (en_json E) None (event_document E p e syscall ptrace file) of
                  Inl x \<Rightarrow> Some (Inl x)
                | Inr data \<Rightarrow> Some (Inr (data, l1 @ l2)))))"

section \<open>Printing and sending\<close>

definition print_event :: "event \<Rightarrow> fault + effect list" where
  "print_event e =
     (case nr_name (ev_flag e) of Inl x \<Rightarrow> Inl x
      | Inr syscall \<Rightarrow>
          (let pid = to_string_u (ev_pid e); ppid = to_string_u (ev_ppid e); cmd = cstr (ev_cmd e);
               name = cstr (ev_filename e); old = cstr (ev_oldfilename e); d1 = cstr (ev_dir1 e);
               d2 = cstr (ev_dir2 e); d3 = cstr (ev_dir3 e); d4 = cstr (ev_dir4 e)
           in Inr
             [Cout ''Event Details:'',
              Cout (''PID: '' @ pid @ '', PPID: '' @ ppid @ '', '' @ ''Command: '' @ cmd @ '', '' @
                ''Syscall: '' @ syscall @ '', '' @ ''Filename: '' @ name @ '', '' @
                ''Old Filename: '' @ old @ '', '' @ ''Directory1: '' @ d1 @ '', Directory2: '' @ d2 @
                '', Directory3: '' @ d3 @ '', Directory4: '' @ d4),
              Log INFO (''Event Details: PID: '' @ pid @ '', PPID: '' @ ppid @ '', Command: '' @ cmd @
                '', Syscall: '' @ syscall @ '', Filename: '' @ name @ '', Old Filename: '' @ old @
                '', Directory1: '' @ d1 @ '', Directory2: '' @ d2 @ '', Directory3: '' @ d3 @
                '', Directory4: '' @ d4)]))"

text \<open>The HTTP request of \<open>send\<close>, from \<open>curl_easy_init\<close> on.\<close>

definition post_data :: "env \<Rightarrow> postdata \<Rightarrow> string \<Rightarrow> int \<times> effect list" where
  "post_data E p data =
     (if \<not> en_curl_init E then (1, [Log ERROR ''Failed to initialize CURL.''])
      else (0, Http_post (pd_ragdoll_api p) data #
        (case en_curl E (pd_ragdoll_api p) data of
           Inl err \<Rightarrow> [Log ERROR (''curl_easy_perform() failed: '' @ err)]
         | Inr http_code \<Rightarrow> [Log INFO (''HTTP POST successful, HTTP Status Code: '' @ to_string_i http_code)])))"

text \<open>
  \<open>send\<close>: the metrics are updated before anything can fail. The result is the return code or the
  exception, with the object and the effects up to that point.
\<close>

definition send :: "env \<Rightarrow> event \<Rightarrow> postdata \<Rightarrow> ((fault + int) \<times> postdata \<times> effect list) option" where
  "send E e p =
     (let l0 = [Log DEBUG ''Send event to Aops.''] in
      case pd_exporter p of None \<Rightarrow> Some (Inl Undefined_behaviour, p, l0)
      | Some X \<Rightarrow>
          (case set_metrics (en_prom E) (en_now E) e X of Inl x \<Rightarrow> Some (Inl x, p, l0)
           | Inr (Y, l1) \<Rightarrow>
               (let q = p\<lparr>pd_exporter := Some Y\<rparr> in
                case print_event e of Inl x \<Rightarrow> Some (Inl x, q, l0 @ l1)
                | Inr l2 \<Rightarrow>
                    (case convert_to_string E q e of None \<Rightarrow> None
                     | Some (Inl x) \<Rightarrow> Some (Inl x, q, l0 @ l1 @ l2)
                     | Some (Inr (data, l3)) \<Rightarrow>
                         (let l = l0 @ l1 @ l2 @ l3 in
                          if data = []
                          then Some (Inr 1, q, l @ [Log ERROR ''Failed to convert event to JSON string.''])
                          else if \<not> pd_publish q
                          then Some (Inr 0, q, l @ [Log INFO ''Publishing is disabled, skip it.'',
                                                    Log INFO (''Data: '' @ data)])
                          else (case post_data E q data of
                                  (r, l4) \<Rightarrow> Some (Inr r, q,
                                    l @ [Log INFO (''Sending data to Aops: '' @ data)] @ l4)))))))"

section \<open>One event\<close>

definition process_event :: "env \<Rightarrow> event \<Rightarrow> postdata \<Rightarrow> ((fault + int) \<times> postdata \<times> effect list) option" where
  "process_event E e p =
     (case is_valid_event e p of Inl x \<Rightarrow> Some (Inl x, p, [])
      | Inr (False, l1) \<Rightarrow> Some (Inr 0, p, l1)
      | Inr (True, l1) \<Rightarrow>
          (if pd_verbose p
           then (case print_event e of Inl x \<Rightarrow> Some (Inl x, p, l1) | Inr l2 \<Rightarrow> Some (Inr 0, p, l1 @ l2))
           else
             (case send E e p of None \<Rightarrow> None
              | Some (Inl x, q, l2) \<Rightarrow> Some (Inl x, q, l1 @ l2)
              | Some (Inr result, q, l2) \<Rightarrow>
                  (case cache_event e q of Inl x \<Rightarrow> Some (Inl x, q, l1 @ l2)
                   | Inr (r, l3) \<Rightarrow> Some (Inr result, r, l1 @ l2 @ l3)))))"

text \<open>
  \<open>sizeof(struct event)\<close> on a 64-bit machine: the members in their order, and four bytes of padding.
\<close>

definition sizeof_event :: nat where
  "sizeof_event = 4 + 4 + TASK_COMM_LEN + TASK_COMM_LEN + 8 + MAX_FILENAME_LEN + 4 * MAX_DIRNAME_LEN +
     MAX_FILENAME_LEN + 4 * MAX_DIRNAME_LEN + 4 + 4 + 4 + 4"

text \<open>
  The callback of the ring buffer. A record is its bytes, here the event they hold and their number;
  \<open>None\<close> for the record is a null pointer, \<open>None\<close> for the object a null \<open>postdata_i\<close>.
\<close>

definition handle_event :: "env \<Rightarrow> event option \<Rightarrow> nat \<Rightarrow> postdata option \<Rightarrow>
    ((fault + int) \<times> postdata option \<times> effect list) option" where
  "handle_event E data data_sz postdata_i =
     (case (data, postdata_i) of
        (Some e, Some p) \<Rightarrow>
          (if data_sz < sizeof_event
           then Some (Inr (-1), postdata_i, [Cerr (''Received event with insufficient data size: ['' @
                    dec_of_nat data_sz @ ''] skip.'')])
           else
             (case process_event E e p of None \<Rightarrow> None
              | Some (Inl x, q, l) \<Rightarrow> Some (Inl x, Some q, l)
              | Some (Inr r, q, l) \<Rightarrow> Some (Inr 0, Some q, l)))
      | _ \<Rightarrow> Some (Inr (-1), postdata_i,
               [Cerr ''Received null data or PostData instance is null, skipping event.'']))"

section \<open>The contract of the filter\<close>

text \<open>
  \<open>accepts s e\<close> is the decision, \<open>good e\<close> what the source of events guarantees of each. A rejected
  event leaves no trace but log lines, and no event changes how later ones are decided.
\<close>

locale gatekeeper =
  fixes good :: "'e \<Rightarrow> bool"
    and accepts :: "'s \<Rightarrow> 'e \<Rightarrow> bool"
    and run :: "'e \<Rightarrow> 's \<Rightarrow> ((fault + int) \<times> 's \<times> effect list) option"
  assumes rejected: "good e \<Longrightarrow> \<not> accepts s e \<Longrightarrow>
      \<exists>l. run e s = Some (Inr 0, s, l) \<and> (\<forall>x \<in> set l. is_log x)"
    and stable: "run e s = Some (r, s', l) \<Longrightarrow> accepts s' = accepts s"
begin

text \<open>The state after a list of events; \<open>None\<close> when one of them hangs or throws.\<close>

fun runs :: "'e list \<Rightarrow> 's \<Rightarrow> 's option" where
  "runs [] s = Some s"
| "runs (e # es) s = (case run e s of Some (Inr r, s', l) \<Rightarrow> runs es s' | _ \<Rightarrow> None)"

lemma only_accepted_matter:
  "(\<And>e. e \<in> set es \<Longrightarrow> good e) \<Longrightarrow> runs es s = runs (filter (accepts s) es) s"
proof (induction es arbitrary: s)
  case (Cons e es)
  show ?case
  proof (cases "accepts s e")
    case True
    show ?thesis
    proof (cases "run e s")
      case (Some x)
      obtain r s' l where x: "x = (r, s', l)" by (cases x) auto
      have "accepts s' = accepts s" using stable Some x by blast
      moreover have "runs es s' = runs (filter (accepts s') es) s'" using Cons by simp
      ultimately show ?thesis using True Some x by (cases r) simp_all
    qed (simp add: True)
  next
    case False
    with rejected [of e s] Cons.prems obtain l where "run e s = Some (Inr 0, s, l)" by auto
    with False Cons show ?thesis by simp
  qed
qed simp

end

definition reportable :: "postdata \<Rightarrow> event \<Rightarrow> bool" where
  "reportable p e \<longleftrightarrow> is_valid_filename (cstr (ev_filename e)) \<and> ev_pid e \<noteq> 0 \<and> \<not> skipped p e \<and>
     (\<exists>path. event_path e = Some path \<and> watched p path)"

lemma is_valid_event_reportable:
  "event_wf e \<Longrightarrow> \<exists>l. is_valid_event e p = Inr (reportable p e, l) \<and> (\<forall>x \<in> set l. is_log x)"
  using is_valid_event_eq [of e p] is_valid_event_logs [of e p] unfolding reportable_def by blast

text \<open>The members of the object the filter reads, which sending and caching leave alone.\<close>

definition filter_view :: "postdata \<Rightarrow> string list \<times> string list \<times> bool \<times> string" where
  "filter_view p = (pd_conf_list p, pd_skip_processes p, pd_verbose p, pd_monitor_file_path p)"

lemma reportable_view: "filter_view p = filter_view q \<Longrightarrow> reportable p = reportable q"
  by (rule ext) (simp add: reportable_def skipped_def watched_def filter_view_def)

lemma cache_event_frame:
  "cache_event e p = Inr (q, l) \<Longrightarrow>
   filter_view q = filter_view p \<and> pd_exporter q = pd_exporter p \<and> (\<forall>x \<in> set l. is_log x)"
  by (auto simp: cache_event_def Let_def filter_view_def split: if_splits sum.splits)

lemma send_frame:
  "send E e p = Some (r, q, l) \<Longrightarrow> filter_view q = filter_view p \<and> pd_event_queue q = pd_event_queue p \<and>
     pd_cache_data q = pd_cache_data p \<and> pd_max_event_queue_size q = pd_max_event_queue_size p"
  by (auto simp: send_def Let_def filter_view_def
      split: option.splits sum.splits prod.splits if_splits)

lemma process_event_view: "process_event E e p = Some (r, q, l) \<Longrightarrow> filter_view q = filter_view p"
  by (auto simp: process_event_def split: sum.splits prod.splits bool.splits if_splits option.splits
      dest!: send_frame cache_event_frame)

interpretation gate: gatekeeper event_wf reportable "process_event E" for E
proof (unfold_locales, goal_cases)
  case (1 e p)
  with is_valid_event_reportable [OF 1(1), of p] show ?case by (auto simp: process_event_def)
next
  case (2 e p r q l)
  then show ?case by (rule reportable_view [OF process_event_view])
qed

section \<open>How an accepted event goes through\<close>

fun process_events :: "env \<Rightarrow> event list \<Rightarrow> postdata \<Rightarrow> postdata option" where
  "process_events E [] p = Some p"
| "process_events E (e # es) p =
     (case process_event E e p of Some (Inr r, q, l) \<Rightarrow> process_events E es q | _ \<Rightarrow> None)"

lemma process_events_runs: "process_events E es p = gate.runs E es p"
  by (induction es arbitrary: p) (auto split: option.splits prod.splits sum.splits)

fun posts :: "effect list \<Rightarrow> (string \<times> string) list" where
  "posts [] = []"
| "posts (Http_post url body # l) = (url, body) # posts l"
| "posts (_ # l) = posts l"

lemma posts_append [simp]: "posts (l @ m) = posts l @ posts m"
  by (induction l rule: posts.induct) simp_all

lemma posts_logs: "\<forall>x \<in> set l. is_log x \<Longrightarrow> posts l = []"
  by (induction l rule: posts.induct) simp_all

lemma path_known_call: "event_path e = Some path \<Longrightarrow> known_call e"
  by (auto simp: event_path_def compared_path_def known_call_def split: if_splits)

lemma reportable_known: "reportable p e \<Longrightarrow> known_call e"
  by (auto simp: reportable_def dest: path_known_call)

lemma known_name: "known_call e \<Longrightarrow> nr_name (ev_flag e) = Inr (nr_map ! nat (ev_flag e))"
  by (simp add: known_call_def nr_name_Inr)

lemma print_event_known: "known_call e \<Longrightarrow> \<exists>l. print_event e = Inr l \<and> posts l = []"
  by (simp add: print_event_def known_name Let_def)

lemma metric_file_quiet: "posts (snd (metric_file e)) = []"
  by (simp add: metric_file_def exporter_full_path_def Let_def)

lemma touch_gauge_quiet: "posts (snd (touch_gauge P e lbls now X)) = []"
  by (simp add: touch_gauge_def Let_def split: option.splits prod.splits)

lemma set_metrics_quiet: "set_metrics P now e X = Inr (Y, l) \<Longrightarrow> posts l = []"
  using metric_file_quiet [of e] touch_gauge_quiet
  by (auto simp: set_metrics_def Let_def split: sum.splits prod.splits option.splits)
    (metis posts.simps(1) posts_append self_append_conv snd_conv)+

lemma file_quiet: "posts (snd (published_file e)) = []"
  by (simp add: published_file_def get_full_path_def Let_def)

lemma set_metrics_known: "known_call e \<Longrightarrow> \<exists>Y l. set_metrics P now e X = Inr (Y, l)"
  using set_metrics_total known_name by blast

text \<open>The document of an event, once its trace is known.\<close>

definition document_of :: "env \<Rightarrow> postdata \<Rightarrow> event \<Rightarrow> json list \<Rightarrow> json" where
  "document_of E p e js = event_document E p e (nr_map ! nat (ev_flag e)) js (fst (published_file e))"

lemma convert_to_string_known:
  assumes "known_call e" and "generate_proc_trace E (ev_pid e) = Some (Inr (js, l))"
  shows "convert_to_string E p e = (case j_dump (en_json E) None (document_of E p e js) of
      Inl x \<Rightarrow> Some (Inl x) | Inr data \<Rightarrow> Some (Inr (data, l @ snd (published_file e))))"
  using assms known_name [OF assms(1)]
  by (simp add: convert_to_string_def document_of_def case_prod_beta)

lemma document_exporter: "document_of E (p\<lparr>pd_exporter := X\<rparr>) e js = document_of E p e js"
  by (simp add: document_of_def event_document_def)

lemma trace_quiet: "generate_proc_trace E pid = Some (Inr (js, l)) \<Longrightarrow> posts l = []"
  by (rule posts_logs) (rule generate_proc_trace_logs)

text \<open>
  What \<open>send\<close> does once the trace is there and the document can be printed: it fails only when it should
  publish and there is no HTTP client, and the metrics are updated in any case.
\<close>

lemma send_result:
  assumes "known_call e" and "pd_exporter p = Some X"
    and "generate_proc_trace E (ev_pid e) = Some (Inr (js, lt))"
    and "j_dump (en_json E) None (document_of E p e js) = Inr data" and "data \<noteq> []"
  shows "\<exists>Y l l1. set_metrics (en_prom E) (en_now E) e X = Inr (Y, l1) \<and>
    send E e p = Some (Inr (if pd_publish p \<and> \<not> en_curl_init E then 1 else 0), p\<lparr>pd_exporter := Some Y\<rparr>, l) \<and>
    posts l = (if pd_publish p \<and> en_curl_init E then [(pd_ragdoll_api p, data)] else [])"
proof -
  obtain Y l1 where m: "set_metrics (en_prom E) (en_now E) e X = Inr (Y, l1)"
    using set_metrics_known [OF assms(1)] by blast
  obtain l2 where pr: "print_event e = Inr l2" "posts l2 = []" using print_event_known [OF assms(1)] by blast
  have c: "convert_to_string E (p\<lparr>pd_exporter := Some Y\<rparr>) e = Some (Inr (data, lt @ snd (published_file e)))"
    using convert_to_string_known [OF assms(1,3)] assms(4) by (simp add: document_exporter)
  have "posts (case en_curl E (pd_ragdoll_api p) data of Inl err \<Rightarrow> [Log ERROR (s @ err)]
      | Inr code \<Rightarrow> [Log INFO (t code)]) = []" for s t
    by (simp split: sum.splits)
  then show ?thesis
    using assms m pr c set_metrics_quiet [OF m] trace_quiet [OF assms(3)] file_quiet [of e]
    by (intro exI [of _ Y]) (simp add: send_def Let_def post_data_def)
qed

lemma send_ok:
  assumes "known_call e" and "pd_exporter p = Some X"
    and "generate_proc_trace E (ev_pid e) = Some (Inr (js, lt))"
    and "j_dump (en_json E) None (document_of E p e js) = Inr data" and "data \<noteq> []"
    and "en_curl_init E"
  shows "\<exists>Y l. send E e p = Some (Inr 0, p\<lparr>pd_exporter := Some Y\<rparr>, l) \<and>
    posts l = (if pd_publish p then [(pd_ragdoll_api p, data)] else [])"
  using send_result [OF assms(1-5)] assms(6) by auto

lemma send_throws:
  assumes "known_call e" and "pd_exporter p = Some X"
    and "(\<exists>js lt. generate_proc_trace E (ev_pid e) = Some (Inr (js, lt)) \<and>
            j_dump (en_json E) None (document_of E p e js) = Inl x) \<or>
         generate_proc_trace E (ev_pid e) = Some (Inl x)"
  shows "\<exists>q l. send E e p = Some (Inl x, q, l)"
proof -
  obtain Y l1 where m: "set_metrics (en_prom E) (en_now E) e X = Inr (Y, l1)"
    using set_metrics_known [OF assms(1)] by blast
  obtain l2 where pr: "print_event e = Inr l2" using print_event_known [OF assms(1)] by blast
  have "convert_to_string E (p\<lparr>pd_exporter := Some Y\<rparr>) e = Some (Inl x)"
    using assms(3)
  proof
    assume "\<exists>js lt. generate_proc_trace E (ev_pid e) = Some (Inr (js, lt)) \<and>
            j_dump (en_json E) None (document_of E p e js) = Inl x"
    then obtain js lt where "generate_proc_trace E (ev_pid e) = Some (Inr (js, lt))"
      "j_dump (en_json E) None (document_of E p e js) = Inl x" by blast
    with convert_to_string_known [OF assms(1) this(1)] show ?thesis by (simp add: document_exporter)
  qed (simp add: convert_to_string_def)
  then show ?thesis using assms(2) m pr by (simp add: send_def Let_def)
qed

lemma process_event_sends:
  assumes "event_wf e" and "reportable p e" and "\<not> pd_verbose p"
  shows "send E e p = None \<Longrightarrow> process_event E e p = None"
    and "send E e p = Some (Inl x, q, l) \<Longrightarrow> \<exists>l'. process_event E e p = Some (Inl x, q, l')"
    and "send E e p = Some (Inr n, q, l) \<Longrightarrow> cache_event e q = Inr (r, l3) \<Longrightarrow>
      \<exists>l'. process_event E e p = Some (Inr n, r, l') \<and> posts l' = posts l @ posts l3"
proof -
  obtain l1 where v: "is_valid_event e p = Inr (True, l1)" "\<forall>x \<in> set l1. is_log x"
    using is_valid_event_reportable [OF assms(1), of p] assms(2) by auto
  show "send E e p = None \<Longrightarrow> process_event E e p = None"
    and "send E e p = Some (Inl x, q, l) \<Longrightarrow> \<exists>l'. process_event E e p = Some (Inl x, q, l')"
    and "send E e p = Some (Inr n, q, l) \<Longrightarrow> cache_event e q = Inr (r, l3) \<Longrightarrow>
      \<exists>l'. process_event E e p = Some (Inr n, r, l') \<and> posts l' = posts l @ posts l3"
    using v assms(3) posts_logs [OF v(2)] by (simp_all add: process_event_def)
qed

lemma cache_event_known:
  assumes "known_call e" and "pd_cache_data p \<longrightarrow> queue_inv p"
  shows "\<exists>q l. cache_event e p = Inr (q, l) \<and> pd_exporter q = pd_exporter p \<and> posts l = []"
proof (cases "pd_cache_data p")
  case True
  with queue.push [of p e] assms obtain q where "push_event e p = Some q" by auto
  then obtain l where q: "cache_event e p = Inr (q, l)" by (auto simp: push_event_def split: sum.splits)
  with cache_event_frame [OF q] posts_logs show ?thesis by auto
qed (simp add: cache_event_def)

text \<open>A running daemon that publishes and caches, in a world that knows no process.\<close>

definition daemon :: postdata where
  "daemon = sample_object\<lparr>pd_exporter := Some ((new_exporter 30)\<lparr>ex_counter := Some 0\<rparr>),
     pd_cache_data := True, pd_publish := True\<rparr>"

definition no_procs :: env where
  "no_procs = map_env (\<lambda>_. None) (\<lambda>_. None)"

lemma daemon_simps [simp]:
  "pd_exporter daemon = Some ((new_exporter 30)\<lparr>ex_counter := Some 0\<rparr>)" "\<not> pd_verbose daemon"
  "pd_conf_list daemon = [''/etc/hosts'']" "pd_publish daemon" "pd_event_queue daemon = []"
  "pd_ragdoll_api daemon = ''http://a/b''"
  by (simp_all add: daemon_def sample_object_def)

lemma daemon_queue: "queue_inv daemon"
  by (simp add: daemon_def sample_object_def queue_inv_def)

lemma no_procs_env: "en_json no_procs = num_json" "en_curl_init no_procs" "en_malloc no_procs"
  by (simp_all add: no_procs_def map_env_def)

lemma trace_step_no_procs: "\<exists>l. trace_step no_procs zero_pinfo 100 = Inr (None, l)"
  by (simp add: trace_step_def get_procinfo_by_pid_from_map_def get_procinfo_by_pid_from_system_def
      no_procs_def map_env_def PID_MAX_LIMIT_def)

lemma trace_no_procs: "\<exists>l. generate_proc_trace no_procs 100 = Some (Inr ([], l))"
proof -
  obtain l where "trace_step no_procs zero_pinfo 100 = Inr (None, l)" using trace_step_no_procs by blast
  from trace_loop_step(2) [OF _ this] generate_is_loop [of 100 no_procs] no_procs_env(3) show ?thesis by force
qed

lemma daemon_reports_hosts: "reportable daemon hosts_event"
  by (simp add: reportable_def is_valid_filename_def hosts_event_fields skipped_def event_path_def
      compared_path_def watched_def hosts_event_path) (simp add: daemon_def sample_object_def)

lemma daemon_document_utf8: "json_utf8 (document_of no_procs daemon hosts_event [])"
proof -
  have z: "to_string_u (0 :: u32) = ''0''" by (simp add: to_string_u_def dec_of_nat.simps digit_char_def)
  have "ev_uid hosts_event = 0" "ev_gid hosts_event = 0"
    by (simp_all add: hosts_event_def zero_event_def)
  then have u: "get_username_by_uid no_procs (ev_uid hosts_event) = ''0''"
    "get_groupname_by_gid no_procs (ev_gid hosts_event) = ''0''"
    "get_loginip_by_username no_procs ''0'' = ''127.0.0.1''"
    using z by (simp_all add: get_username_by_uid_def get_groupname_by_gid_def get_loginip_by_username_def
        no_procs_def map_env_def)
  have f: "fst (published_file hosts_event) = ''/etc/hosts''"
    by (simp add: published_file_def hosts_event_fields hosts_event_path)
  have d: "pd_host_id daemon = ''h1''" "pd_domain_name daemon = ''dom''" "pd_cluster_id daemon = []"
    by (simp_all add: daemon_def sample_object_def)
  show ?thesis
    unfolding document_of_def event_document_def f
    by (simp only: Let_def u d hosts_event_fields, rule obj_of_utf8)
      (auto simp: strict_utf8_ascii ascii_def byte_of_def nr_map_def)
qed

section \<open>Properties\<close>

text \<open>A rejected event has no effect: the object is unchanged, the return code is 0, nothing is
  printed, sent or cached. The test writes log lines, though, for a rejected write too.\<close>

lemma rejected_event_has_no_effect:
  assumes "event_wf e" and "\<not> reportable p e"
  shows "\<exists>l. process_event E e p = Some (Inr 0, p, l) \<and> (\<forall>x \<in> set l. is_log x)"
  using assms by (rule gate.rejected)

text \<open>What the daemon has counted, exported and cached after any stream of events is what it would
  have after the reported ones alone, in the same order.\<close>

lemma only_reported_events_matter:
  assumes "\<And>e. e \<in> set es \<Longrightarrow> event_wf e"
  shows "process_events E es p = process_events E (filter (reportable p) es) p"
  using gate.only_accepted_matter [of es E p] assms by (simp add: process_events_runs)




text \<open>C5: A reported event, outside verbose mode, whose process trace returns without an exception
  and whose document is UTF-8, when the HTTP client can be set up and the queue respects its bound,
  is processed with result 0; if publishing is enabled it gives exactly one HTTP request, to the
  configured address, whose body is the printed document of the event, and if it is disabled none.\<close>

theorem reported_event_is_published_once:
  assumes "json_ok (en_json E)" and "event_wf e" and "reportable p e" and "\<not> pd_verbose p"
    and "pd_exporter p = Some X" and "pd_cache_data p \<longrightarrow> queue_inv p" and "en_curl_init E"
    and "generate_proc_trace E (ev_pid e) = Some (Inr (js, lt))" and "json_utf8 (document_of E p e js)"
  shows "\<exists>data q l. process_event E e p = Some (Inr 0, q, l) \<and>
    j_dump (en_json E) None (document_of E p e js) = Inr data \<and>
    posts l = (if pd_publish p then [(pd_ragdoll_api p, data)] else [])"
proof -
  note k = reportable_known [OF assms(3)]
  obtain data where d: "j_dump (en_json E) None (document_of E p e js) = Inr data" "data \<noteq> []"
    using json_ok_dump(2) [OF assms(1,9)] by blast
  obtain Y l where s: "send E e p = Some (Inr 0, p\<lparr>pd_exporter := Some Y\<rparr>, l)"
    "posts l = (if pd_publish p then [(pd_ragdoll_api p, data)] else [])"
    using send_ok [OF k assms(5,8) d assms(7)] by blast
  have "pd_cache_data (p\<lparr>pd_exporter := Some Y\<rparr>) \<longrightarrow> queue_inv (p\<lparr>pd_exporter := Some Y\<rparr>)"
    using assms(6) by (simp add: queue_inv_def)
  from cache_event_known [OF k this] obtain r l3 where c: "cache_event e (p\<lparr>pd_exporter := Some Y\<rparr>) = Inr (r, l3)"
    "posts l3 = []" by blast
  from process_event_sends(3) [OF assms(2-4) s(1) c(1)] c(2) s(2) d(1) show ?thesis by auto
qed

theorem reported_event_is_published_once_witness:
  "\<exists>data q l. process_event no_procs hosts_event daemon = Some (Inr 0, q, l) \<and> posts l = [(''http://a/b'', data)]"
proof -
  obtain l where "generate_proc_trace no_procs (ev_pid hosts_event) = Some (Inr ([], l))"
    using trace_no_procs by (auto simp: hosts_event_fields)
  from reported_event_is_published_once [OF _ hosts_event_wf daemon_reports_hosts _ daemon_simps(1) _ _ this
      daemon_document_utf8] num_json_ok daemon_queue
  show ?thesis by (auto simp: no_procs_env)
qed

text \<open>For every system call but unlink, the file name that is published and the one of the metric
  label are the very string the filter compared with the configuration.\<close>

lemma published_name_is_compared_name:
  assumes "event_path e = Some path" and "ev_flag e \<noteq> flag_code SYS_unlinkat"
  shows "fst (published_file e) = path \<and> fst (metric_file e) = path"
proof -
  have "fst (exporter_full_path e) = fst (get_full_path e)"
    by (simp add: post_path.rebuild_path exporter_path.rebuild_path)
  then show ?thesis
    using assms by (auto simp: event_path_def compared_path_def published_file_def metric_file_def
        split: if_splits)
qed

text \<open>C39: For a reported unlink of a relative name, outside verbose mode and with absolute
  configured paths, the path the filter compared is a configured one, and the bare name is published
  and exported, which is no configured path at all.\<close>

theorem unlink_publishes_bare_name:
  assumes "reportable p e" and "\<not> pd_verbose p" and "ev_flag e = flag_code SYS_unlinkat"
    and "hd (cstr (ev_filename e)) \<noteq> SLASH" and "\<forall>c \<in> set (pd_conf_list p). hd c = SLASH"
  shows "fst (get_full_path e) \<in> set (pd_conf_list p) \<and>
    fst (published_file e) \<notin> set (pd_conf_list p) \<and> fst (metric_file e) \<notin> set (pd_conf_list p)"
  using assms by (auto simp: reportable_def event_path_def compared_path_def watched_def
      published_file_def metric_file_def)

theorem unlink_publishes_bare_name_witness:
  "fst (published_file (hosts_event\<lparr>ev_flag := 0\<rparr>)) \<notin> set (pd_conf_list daemon)"
proof -
  have "event_parts (hosts_event\<lparr>ev_flag := 0\<rparr>) = event_parts hosts_event" by (simp add: event_parts_def)
  then have "fst (get_full_path (hosts_event\<lparr>ev_flag := 0\<rparr>)) = ''/etc/hosts''"
    using hosts_event_path by (simp add: get_full_path_def)
  then have "reportable daemon (hosts_event\<lparr>ev_flag := 0\<rparr>)"
    by (simp add: reportable_def is_valid_filename_def hosts_event_fields skipped_def event_path_def
      compared_path_def watched_def) (simp add: daemon_def sample_object_def)
  from unlink_publishes_bare_name [OF this] show ?thesis by (simp add: hosts_event_fields)
qed

text \<open>C26: A reported event, outside verbose mode and with a process trace that returns, whose
  command name is not UTF-8, as when the kernel cuts a name of 15 bytes in the middle of a
  character, throws out of the ring buffer callback, which nothing catches.\<close>

theorem non_utf8_command_throws:
  assumes "json_ok (en_json E)" and "event_wf e" and "reportable p e" and "\<not> pd_verbose p"
    and "pd_exporter p = Some X" and "generate_proc_trace E (ev_pid e) = Some (Inr (js, lt))"
    and "\<not> strict_utf8 (cstr (ev_cmd e))"
  shows "\<exists>q l. handle_event E (Some e) sizeof_event (Some p) = Some (Inl (Throw Json_type_error), Some q, l)"
proof -
  have "\<not> json_utf8 (document_of E p e js)"
    using assms(7) by (simp add: document_of_def event_document_def obj_of_def less_char_def Let_def)
  then have "j_dump (en_json E) None (document_of E p e js) = Inl (Throw Json_type_error)"
    by (rule json_ok_dump(1) [OF assms(1)])
  with send_throws [OF reportable_known [OF assms(3)] assms(5)] assms(6) obtain q l where
    "send E e p = Some (Inl (Throw Json_type_error), q, l)" by blast
  from process_event_sends(2) [OF assms(2-4) this] show ?thesis by (auto simp: handle_event_def)
qed

theorem non_utf8_command_throws_witness:
  "\<exists>q l. handle_event no_procs (Some (hosts_event\<lparr>ev_cmd := to_buf TASK_COMM_LEN [CHR 0xC0]\<rparr>)) sizeof_event
     (Some daemon) = Some (Inl (Throw Json_type_error), Some q, l)"
proof -
  let ?e = "hosts_event\<lparr>ev_cmd := to_buf TASK_COMM_LEN [CHR 0xC0]\<rparr>"
  have c: "cstr (to_buf TASK_COMM_LEN [CHR 0xC0]) = [CHR 0xC0]"
    by (simp add: cstr_to_buf size_consts) (simp add: cstr_def)
  have parts: "event_parts ?e = event_parts hosts_event" by (simp add: event_parts_def)
  have wf: "event_wf ?e" using hosts_event_wf to_buf_terminated [of TASK_COMM_LEN "[CHR 0xC0]"]
    by (simp add: event_wf_def size_consts)
  have "fst (get_full_path ?e) = ''/etc/hosts''" using hosts_event_path by (simp add: get_full_path_def parts)
  then have rep: "reportable daemon ?e"
    by (simp add: reportable_def is_valid_filename_def hosts_event_fields skipped_def event_path_def
      compared_path_def watched_def) (simp add: daemon_def sample_object_def)
  have bad: "\<not> strict_utf8 (cstr (ev_cmd ?e))"
    by (simp add: c, rule not_strict)
      (auto simp: strict_unit_def in_range_def byte_of_def take_Cons split: nat.splits)
  obtain l where t: "generate_proc_trace no_procs (ev_pid ?e) = Some (Inr ([], l))"
    using trace_no_procs by (auto simp: hosts_event_fields)
  show ?thesis
    by (rule non_utf8_command_throws [OF _ wf rep _ daemon_simps(1) t bad])
      (simp_all add: no_procs_env num_json_ok)
qed

text \<open>C27: A reported event, outside verbose mode, of a process that is not in the map and that ends
  between the opening and the reading of its \<open>/proc\<close> entry, so that the line read is empty, throws
  \<open>std::out_of_range\<close> out of the ring buffer callback, which nothing catches.\<close>

theorem vanished_process_throws:
  assumes "event_wf e" and "reportable p e" and "\<not> pd_verbose p" and "pd_exporter p = Some X"
    and "1 < ev_pid e" and "unat (ev_pid e) \<le> PID_MAX_LIMIT" and "en_malloc E"
    and "en_map E (ev_pid e) = None" and "en_stat E (ev_pid e) = Some []"
  shows "\<exists>q l. handle_event E (Some e) sizeof_event (Some p) = Some (Inl (Throw Out_of_range), Some q, l)"
proof -
  have nz: "ev_pid e \<noteq> 0" using assms(5) by auto
  have "split_stat_line [] = Inl (Throw Out_of_range)"
    by (rule no_parenthesis_throws) (simp_all add: fits_def)
  then have "trace_step E zero_pinfo (ev_pid e) = Inl (Throw Out_of_range)"
    using nz assms(6,8,9)
    by (simp add: trace_step_def get_procinfo_by_pid_from_map_def get_procinfo_by_pid_from_system_def)
  with generate_is_loop [OF assms(5,7)] trace_loop_step(3) [OF nz] have
    "generate_proc_trace E (ev_pid e) = Some (Inl (Throw Out_of_range))" by force
  with send_throws [OF reportable_known [OF assms(2)] assms(4)] obtain q l where
    "send E e p = Some (Inl (Throw Out_of_range), q, l)" by blast
  from process_event_sends(2) [OF assms(1-3) this] show ?thesis by (auto simp: handle_event_def)
qed

theorem vanished_process_throws_witness:
  "\<exists>q l. handle_event (map_env (\<lambda>_. None) (\<lambda>_. Some [])) (Some hosts_event) sizeof_event (Some daemon) =
     Some (Inl (Throw Out_of_range), Some q, l)"
  by (rule vanished_process_throws [OF hosts_event_wf daemon_reports_hosts _ daemon_simps(1)])
    (simp_all add: hosts_event_fields map_env_def PID_MAX_LIMIT_def)

end
