(* ===== verification/Daemon.thy ===== *)
theory Daemon
  imports Dispatch EventQueue
begin

text \<open>
  The life of the daemon: the constructor and the destructor of \<open>PostData\<close>, \<open>exporter_start\<close> and the
  routes of \<open>start_http_server\<close> (\<open>src/post.cpp\<close>), and \<open>main\<close> with its polling loop and the signal
  handler (\<open>src/filetrace.cpp\<close>). What the operating system and libbpf answer is the record
  \<open>platform\<close>; the resources \<open>main\<close> holds are the record \<open>process\<close>. A call that leaves \<open>main\<close> by an
  exception ends the process without running the rest.
\<close>

section \<open>The exporter\<close>

text \<open>\<open>e.what()\<close>.\<close>

definition what :: "json_lib \<Rightarrow> exn \<Rightarrow> string" where
  "what J x = (case x of Runtime_error s \<Rightarrow> s | _ \<Rightarrow> j_what J (Throw x))"

definition exporter_start :: "json_lib \<Rightarrow> (string \<Rightarrow> exn option) \<Rightarrow> postdata \<Rightarrow>
    (fault + bool) \<times> postdata \<times> effect list" where
  "exporter_start J exposer p =
     (let l0 = [Log INFO (''Starting Prometheus Exporter at '' @ pd_exporter_address p)] in
      if pd_exporter_address p = [] then (Inl (Throw (Runtime_error ''Exporter address is empty!'')), p, l0)
      else
        (case make_exporter exposer (pd_exporter_address p) (pd_cache_timeout_seconds p) of
           (Inl x, l1) \<Rightarrow> (Inl (Throw x), p,
             l0 @ l1 @ [Log ERROR (''Failed to initialize Prometheus Exporter: '' @ what J x)])
         | (Inr X, l1) \<Rightarrow>
             (case add_counter ''file_access_total'' ''File access events'' X of
                (Y, l2) \<Rightarrow> (Inr True, p\<lparr>pd_exporter := Some Y\<rparr>, l0 @ l1 @ l2))))"

section \<open>The object\<close>

text \<open>\<open>skel\<close> is the descriptor of \<open>exec_map\<close>, or \<open>None\<close> for a null skeleton.\<close>

definition new_postdata :: "json_lib \<Rightarrow> (string \<Rightarrow> exn option) \<Rightarrow> fs \<Rightarrow> postdata \<Rightarrow> int option \<Rightarrow>
    string \<Rightarrow> bool \<Rightarrow> string \<Rightarrow> (fault + postdata) \<times> effect list" where
  "new_postdata J exposer f memory skel configFile verb path =
     (let fail = (\<lambda>s l. (Inl (Throw (Runtime_error s)), l));
          p = initial_object configFile verb path memory;
          l0 = [Cout ''Initializing PostData!''] in
      if configFile = [] then fail ''Configuration file path is empty!'' l0
      else if read_file f configFile = None
      then fail (''Configuration file does not exist or is not accessible: '' @ configFile) l0
      else
        (case load_config J f (pd_config_json p) p of
           (Inl x, q, l1) \<Rightarrow> (Inl x, l0 @ l1)
         | (Inr ret, q, l1) \<Rightarrow>
             (if ret \<noteq> 0 then fail ''Configuration load failed'' (l0 @ l1)
              else
                (let l2 = l0 @ l1 @ [Log_init (pd_log_file q) (pd_log_level q) (pd_log_size q),
                       Log INFO (''Logger initialized, level='' @ pd_log_level q @ '', file='' @ pd_log_file q)] in
                 case skel of
                   None \<Rightarrow> fail ''eBPF skeleton is null!'' l2
                 | Some fd \<Rightarrow>
                     (let q1 = q\<lparr>pd_skel := True, pd_exec_map_fd := fd\<rparr> in
                      if pd_exec_map_fd q1 < 0 then fail ''Failed to get exec_map fd!'' l2
                      else
                        (case exporter_start J exposer q1 of
                           (Inl x, q2, l3) \<Rightarrow> (Inl x, l2 @ l3)
                         | (Inr b, q2, l3) \<Rightarrow>
                             (Inr q2, l2 @ l3 @ (if pd_publish q2 then [Start_server] else []) @
                                [Log INFO ''PostData initialized successfully!''])))))))"

text \<open>The destructor; the exporter is gone with it, after its thread has ended.\<close>

definition delete_postdata :: "postdata \<Rightarrow> postdata \<times> effect list" where
  "delete_postdata p =
     (p\<lparr>pd_skel := False, pd_exec_map_fd := -1, pd_exporter := None\<rparr>,
      Log INFO ''PostData destroyed'' #
      (case pd_exporter p of None \<Rightarrow> [] | Some X \<Rightarrow> snd (destroy_exporter X)))"

section \<open>The HTTP server\<close>

datatype http_request =
    Post_filetrace string
  | Get_filetrace
  | Get_monitor_file_status "string option"
  | Other_request

text \<open>
  The routes \<open>start_http_server\<close> registers. The server answers 404 to any other request, 500 when a
  handler throws, and 200 when the handler set no status.
\<close>

definition route :: "bool \<Rightarrow> http_request \<Rightarrow> bool" where
  "route cache_data r = (case r of Post_filetrace body \<Rightarrow> True | Get_filetrace \<Rightarrow> True
     | Get_monitor_file_status param \<Rightarrow> cache_data | Other_request \<Rightarrow> False)"

definition registered :: "postdata \<Rightarrow> http_request \<Rightarrow> bool" where
  "registered p r = route (pd_cache_data p) r"

definition answered :: "fault + response \<Rightarrow> response" where
  "answered r = (case r of Inl x \<Rightarrow> answer 500 [] [] | Inr res \<Rightarrow> res)"

fun handle_request :: "json_lib \<Rightarrow> http_request \<Rightarrow> fs \<Rightarrow> postdata \<Rightarrow>
    (fault + response) \<times> fs \<times> postdata \<times> effect list" where
  "handle_request J (Post_filetrace body) f p = handle_update_config_request J body f p"
| "handle_request J Get_filetrace f p = (get_filetrace J p (answer 200 [] []), f, p, [])"
| "handle_request J (Get_monitor_file_status param) f p =
     (case monitor_file_status J param p of (r, q, l) \<Rightarrow> (r, f, q, l))"
| "handle_request J Other_request f p = (Inr (answer 404 [] []), f, p, [])"

definition serve :: "json_lib \<Rightarrow> http_request \<Rightarrow> fs \<Rightarrow> postdata \<Rightarrow>
    response \<times> fs \<times> postdata \<times> effect list" where
  "serve J r f p =
     (if \<not> registered p r then (answer 404 [] [], f, p, [])
      else (case handle_request J r f p of (res, f', q, l) \<Rightarrow> (answered res, f', q, l)))"

definition start_http_server :: "postdata \<Rightarrow> effect list" where
  "start_http_server p = [Log INFO ''Starting HTTP Server.''] @
     (if pd_cache_data p
      then [Log INFO ''API monitor file status is enabled, caching events for API access.''] else []) @
     [Log INFO (''Starting HTTP server at '' @ pd_server p @ '':'' @ to_string_i (pd_port p))]"

section \<open>The main program\<close>

text \<open>
  \<open>pf_open\<close>: the error number when the skeleton cannot be opened; \<open>pf_load\<close> and \<open>pf_attach\<close>: the
  error codes, 0 for success; \<open>pf_ring\<close>: the error number when there is no ring buffer; \<open>pf_exec_fd\<close>:
  the descriptor of \<open>exec_map\<close>; \<open>pf_memory\<close>: what the memory of a new object holds; \<open>pf_errno\<close>: the
  error number after a failed poll; \<open>pf_listen\<close>: \<open>svr.listen\<close> can use the configured address.
\<close>

record platform =
  pf_json :: json_lib
  pf_exposer :: "string \<Rightarrow> exn option"
  pf_fs :: fs
  pf_memory :: postdata
  pf_getpid :: u32
  pf_open :: "int option"
  pf_load :: int
  pf_attach :: int
  pf_ring :: "int option"
  pf_exec_fd :: int
  pf_strerror :: "int \<Rightarrow> string"
  pf_errno :: int
  pf_listen :: bool

text \<open>
  \<open>ps_ptr\<close>: the global pointer to the skeleton is set; \<open>ps_skel\<close>: the skeleton is there; \<open>ps_server\<close>: the
  HTTP server runs on its own thread, with the value of \<open>cache_data\<close> its routes were registered for.
\<close>

record process =
  ps_ptr :: bool
  ps_skel :: bool
  ps_self :: u32
  ps_obj :: "postdata option"
  ps_attached :: bool
  ps_ring :: bool
  ps_server :: "bool option"

datatype status = Running | Exited int | Terminated fault

definition no_process :: process where
  "no_process = \<lparr>ps_ptr = False, ps_skel = False, ps_self = 0, ps_obj = None, ps_attached = False, ps_ring = False,
     ps_server = None\<rparr>"

text \<open>The loop over the options, as \<open>getopt\<close> delivers them; \<open>Inl\<close> is the line printed before 1 is returned.\<close>

fun parse_options :: "fs \<Rightarrow> string \<Rightarrow> (char \<times> string) list \<Rightarrow> string \<times> string \<times> bool \<Rightarrow>
    string + string \<times> string \<times> bool" where
  "parse_options f argv0 [] acc = Inr acc"
| "parse_options f argv0 ((opt, optarg) # opts) (config_file, file_path, verbose) =
     (if opt = CHR ''c'' then parse_options f argv0 opts (optarg, file_path, verbose)
      else if opt = CHR ''f''
      then (if 0 < length optarg \<and> optarg ! 0 \<noteq> SLASH then Inl ''Error: File path must be absolute.''
            else if read_file f optarg = None then Inl ''Error: File path does not exist or is not accessible.''
            else parse_options f argv0 opts (config_file, optarg, True))
      else Inl (''Usage: '' @ argv0 @ '' [-c <config_file>] [-f <file_path>]''))"

definition default_config :: string where
  "default_config = ''/etc/gala-filetrace/gala-filetrace.json''"

definition destroy_skel :: "process \<Rightarrow> process" where
  "destroy_skel S = S\<lparr>ps_skel := False, ps_attached := False\<rparr>"

text \<open>
  The thread the constructor starts, and detaches, when publishing is enabled: it registers the routes
  and then serves requests until the process ends. The model takes it to listen when the constructor returns.
\<close>

definition run_server :: "platform \<Rightarrow> postdata \<Rightarrow> effect list \<Rightarrow> process \<Rightarrow> process" where
  "run_server P p l S =
     (if Start_server \<in> set l \<and> pf_listen P then S\<lparr>ps_server := Some (pd_cache_data p)\<rparr> else S)"

text \<open>\<open>delete postdata_i\<close>: the destructor ends the exporter and leaves the server's thread alone.\<close>

definition delete_obj :: "process \<Rightarrow> process \<times> effect list" where
  "delete_obj S = (S\<lparr>ps_obj := None\<rparr>,
     (case ps_obj S of None \<Rightarrow> [] | Some p \<Rightarrow> snd (delete_postdata p)))"

text \<open>The end of \<open>main\<close>, after the loop.\<close>

definition shut_down :: "int \<Rightarrow> process \<Rightarrow> status \<times> process \<times> effect list" where
  "shut_down err S =
     (let S1 = (if ps_ring S then S\<lparr>ps_ring := False\<rparr> else S) in
      case delete_obj S1 of (S2, l) \<Rightarrow> (Exited err, destroy_skel S2, l))"

text \<open>From the skeleton to the start of the loop.\<close>

definition start_up :: "platform \<Rightarrow> string \<Rightarrow> bool \<Rightarrow> string \<Rightarrow> status \<times> process \<times> effect list" where
  "start_up P config_file verbose file_path =
     (case pf_open P of
        Some err \<Rightarrow> (Exited err, no_process, [Cerr ''Failed to open eBPF skeleton!'',
          Cerr (''Error: '' @ pf_strerror P err)])
      | None \<Rightarrow>
          (let S = no_process\<lparr>ps_ptr := True, ps_skel := True, ps_self := pf_getpid P\<rparr> in
           if pf_load P \<noteq> 0
           then (Exited (pf_load P), destroy_skel S, 
                 [Cerr (''Failed to load eBPF skeleton: '' @ pf_strerror P (- pf_load P))])
           else
             (case new_postdata (pf_json P) (pf_exposer P) (pf_fs P) (pf_memory P) (Some (pf_exec_fd P))
                     config_file verbose file_path of
                (Inl x, l) \<Rightarrow> (Terminated x, S, l)
              | (Inr p, l) \<Rightarrow>
                  (let S1 = run_server P p l (S\<lparr>ps_obj := Some p\<rparr>) in
                   if pf_attach P \<noteq> 0
                   then (case delete_obj S1 of
                           (S2, l2) \<Rightarrow> (Exited (pf_attach P), destroy_skel S2,
                             l @ [Cerr ''Failed to attach eBPF program!''] @ l2))
                   else
                     (let S2 = S1\<lparr>ps_attached := True\<rparr> in
                      case pf_ring P of
                        Some err \<Rightarrow> (case delete_obj S2 of
                          (S3, l2) \<Rightarrow> (Exited (- err), destroy_skel S3,
                            l @ [Cerr (''Error: '' @ pf_strerror P err)] @ l2))
                      | None \<Rightarrow> (Running, S2\<lparr>ps_ring := True\<rparr>,
                          l @ [Cout ''eBPF program attached, press Ctrl+C to exit.'']))))))"

text \<open>
  One call of \<open>ring_buffer__poll\<close>: the records it hands to the callback, each with the world at that
  time and its size, or its own error. A negative answer of the callback ends the call with it.
\<close>

datatype poll = Records "(env \<times> event \<times> nat) list" | Poll_error int

fun ring_poll :: "(env \<times> event \<times> nat) list \<Rightarrow> postdata option \<Rightarrow>
    ((fault + int) \<times> postdata option \<times> effect list) option" where
  "ring_poll [] p = Some (Inr 0, p, [])"
| "ring_poll ((E, e, sz) # es) p =
     (case handle_event E (Some e) sz p of
        None \<Rightarrow> None
      | Some (Inl x, q, l) \<Rightarrow> Some (Inl x, q, l)
      | Some (Inr r, q, l) \<Rightarrow>
          (if r < 0 then Some (Inr r, q, l)
           else (case ring_poll es q of None \<Rightarrow> None
                 | Some (Inl x, q', l') \<Rightarrow> Some (Inl x, q', l @ l')
                 | Some (Inr n, q', l') \<Rightarrow> Some (Inr (if n < 0 then n else n + 1), q', l @ l'))))"

definition poll_once :: "poll \<Rightarrow> postdata option \<Rightarrow> ((fault + int) \<times> postdata option \<times> effect list) option" where
  "poll_once x p = (case x of Records es \<Rightarrow> ring_poll es p | Poll_error err \<Rightarrow> Some (Inr err, p, []))"

text \<open>The loop, for the calls in the list; \<open>None\<close> when a callback never returns.\<close>

fun main_loop :: "platform \<Rightarrow> poll list \<Rightarrow> process \<Rightarrow> (status \<times> process \<times> effect list) option" where
  "main_loop P [] S = Some (Running, S, [])"
| "main_loop P (x # xs) S =
     (case poll_once x (ps_obj S) of
        None \<Rightarrow> None
      | Some (Inl f, p, l) \<Rightarrow> Some (Terminated f, S\<lparr>ps_obj := p\<rparr>, l)
      | Some (Inr err, p, l) \<Rightarrow>
          (let S1 = S\<lparr>ps_obj := p\<rparr> in
           if err < 0
           then (case shut_down err S1 of (st, S2, l2) \<Rightarrow> Some (st, S2, l @
                   [Cerr (''Error: '' @ pf_strerror P (pf_errno P) @ ''('' @ to_string_i (pf_errno P) @ '')'')] @ l2))
           else (case main_loop P xs S1 of None \<Rightarrow> None | Some (st, S2, l2) \<Rightarrow> Some (st, S2, l @ l2))))"

definition run_main :: "platform \<Rightarrow> string \<Rightarrow> (char \<times> string) list \<Rightarrow> poll list \<Rightarrow>
    (status \<times> process \<times> effect list) option" where
  "run_main P argv0 opts polls =
     (case parse_options (pf_fs P) argv0 opts (default_config, [], False) of
        Inl msg \<Rightarrow> Some (Exited 1, no_process, [Cerr msg])
      | Inr (config_file, file_path, verbose) \<Rightarrow>
          (case start_up P config_file verbose file_path of
             (Running, S, l) \<Rightarrow>
               (case main_loop P polls S of None \<Rightarrow> None | Some (st, S1, l1) \<Rightarrow> Some (st, S1, l @ l1))
           | (st, S, l) \<Rightarrow> Some (st, S, l)))"

text \<open>Destroying a skeleton that is already gone is undefined.\<close>

definition sig_handler :: "process \<Rightarrow> status \<times> process \<times> effect list" where
  "sig_handler S =
     (let l = [Cout ''Signal received: Exiting BPF program.''] in
      if ps_ptr S
      then (if ps_skel S then (Exited 0, destroy_skel S, l) else (Terminated Undefined_behaviour, S, l))
      else (Exited 0, S, l))"

text \<open>
  A request as it meets the process: \<open>None\<close> when no server listens. The routes were registered with a
  pointer to the object; a handler that runs after the object was deleted uses freed memory.
\<close>

definition server_request :: "json_lib \<Rightarrow> http_request \<Rightarrow> fs \<Rightarrow> process \<Rightarrow>
    ((fault + response) \<times> fs \<times> process \<times> effect list) option" where
  "server_request J r f S =
     (case ps_server S of
        None \<Rightarrow> None
      | Some cache_data \<Rightarrow>
          (if \<not> route cache_data r then Some (Inr (answer 404 [] []), f, S, [])
           else (case ps_obj S of
                   None \<Rightarrow> Some (Inl Undefined_behaviour, f, S, [])
                 | Some p \<Rightarrow> (case handle_request J r f p of
                     (res, f', q, l) \<Rightarrow> Some (Inr (answered res), f', S\<lparr>ps_obj := Some q\<rparr>, l)))))"

section \<open>What the constructor leaves\<close>

lemma exporter_start_cases:
  "exporter_start J exposer p = (r, q, l) \<Longrightarrow>
   (\<exists>x. r = Inl (Throw x) \<and> q = p) \<or>
   (r = Inr True \<and> pd_exporter_address p \<noteq> [] \<and> exposer (pd_exporter_address p) = None \<and>
    q = p\<lparr>pd_exporter := Some ((new_exporter (pd_cache_timeout_seconds p))\<lparr>ex_counter := Some 0\<rparr>)\<rparr>)"
  by (auto simp: exporter_start_def make_exporter_def add_counter_def Let_def split: if_splits option.splits)

text \<open>The object \<open>q\<close> a successful load leaves, as the rest of the constructor completes it.\<close>

definition completed :: "int \<Rightarrow> postdata \<Rightarrow> postdata" where
  "completed fd q = q\<lparr>pd_skel := True, pd_exec_map_fd := fd,
     pd_exporter := Some ((new_exporter (pd_cache_timeout_seconds q))\<lparr>ex_counter := Some 0\<rparr>)\<rparr>"

lemma new_postdata_Inr:
  assumes "new_postdata J exposer f memory skel configFile verb path = (Inr p, l)"
  obtains q l1 fd where "load_config J f configFile (initial_object configFile verb path memory) = (Inr 0, q, l1)"
    and "skel = Some fd" and "0 \<le> fd" and "pd_exporter_address q \<noteq> []"
    and "exposer (pd_exporter_address q) = None" and "p = completed fd q"
proof -
  let ?p = "initial_object configFile verb path memory"
  obtain r q l1 where load: "load_config J f configFile ?p = (r, q, l1)" by (metis prod_cases3)
  have cj: "pd_config_json ?p = configFile" by (simp add: initial_object_def)
  show ?thesis
    using assms load
    by (auto simp: new_postdata_def Let_def cj completed_def split: if_splits sum.splits option.splits prod.splits
        dest!: exporter_start_cases intro!: that)
qed

text \<open>What the daemon relies on of its object, and every step keeps.\<close>

definition object_ok :: "postdata \<Rightarrow> bool" where
  "object_ok p \<longleftrightarrow> (pd_cache_data p \<longrightarrow> queue_inv p) \<and> (\<exists>X. pd_exporter p = Some X \<and> ex_inv X)"

lemma new_postdata_config:
  assumes "json_ok J" and "new_postdata J exposer f memory skel configFile verb path = (Inr p, l)"
  shows "config_ok p" and "object_ok p" and "pd_event_queue p = []"
    and "pd_verbose p = verb \<and> pd_monitor_file_path p = path \<and> 0 \<le> pd_exec_map_fd p"
proof -
  from new_postdata_Inr [OF assms(2)] obtain q l1 fd where
    load: "load_config J f configFile (initial_object configFile verb path memory) = (Inr 0, q, l1)"
    and fd: "0 \<le> fd" and p: "p = completed fd q" by metis
  from load obtain m where m: "reads J m q" "config_ok q"
    "outside_config q = outside_config (initial_object configFile verb path memory)"
    using load_config_zero [OF assms(1)] by blast
  then have out: "pd_event_queue q = []" "pd_verbose q = verb" "pd_monitor_file_path q = path"
    by (simp_all add: outside_config_def initial_object_def fresh_object_def)
  show "config_ok p" using m(2) by (simp add: p completed_def config_ok_def)
  show "object_ok p"
    using reads_positive [OF assms(1) m(1)] out by (simp add: p completed_def object_ok_def queue_inv_def)
  show "pd_event_queue p = []" "pd_verbose p = verb \<and> pd_monitor_file_path p = path \<and> 0 \<le> pd_exec_map_fd p"
    using out fd by (simp_all add: p completed_def)
qed

section \<open>What main holds when it ends\<close>

definition released :: "process \<Rightarrow> bool" where
  "released S \<longleftrightarrow> \<not> ps_skel S \<and> \<not> ps_attached S \<and> ps_obj S = None \<and> \<not> ps_ring S"

lemma shut_down_released: "shut_down err S = (st, S', l) \<Longrightarrow>
    st = Exited err \<and> released S' \<and> ps_ptr S' = ps_ptr S \<and> ps_server S' = ps_server S"
  by (cases "ps_ring S") (auto simp: shut_down_def Let_def delete_obj_def destroy_skel_def released_def)

lemma run_server_frame [simp]:
  "ps_ptr (run_server P p l S) = ps_ptr S" "ps_skel (run_server P p l S) = ps_skel S"
  "ps_self (run_server P p l S) = ps_self S" "ps_obj (run_server P p l S) = ps_obj S"
  "ps_attached (run_server P p l S) = ps_attached S" "ps_ring (run_server P p l S) = ps_ring S"
  by (simp_all add: run_server_def)

text \<open>A failed start either leaves nothing behind or is an exception of the constructor.\<close>

lemma start_up_cases:
  assumes "start_up P config_file verbose file_path = (st, S, l)"
  obtains (exited) "\<exists>r. st = Exited r \<and> released S"
  | (thrown) x l' where "st = Terminated x" and "ps_skel S" and "ps_ptr S"
      and "new_postdata (pf_json P) (pf_exposer P) (pf_fs P) (pf_memory P) (Some (pf_exec_fd P))
        config_file verbose file_path = (Inl x, l')"
  | (running) p l' where "st = Running" and "ps_skel S" and "ps_ptr S" and "ps_ring S" and "ps_obj S = Some p"
      and "new_postdata (pf_json P) (pf_exposer P) (pf_fs P) (pf_memory P) (Some (pf_exec_fd P))
        config_file verbose file_path = (Inr p, l')" and "ps_self S = pf_getpid P"
proof -
  note defs = start_up_def Let_def no_process_def destroy_skel_def released_def
  show ?thesis
  proof (cases "pf_open P = None \<and> pf_load P = 0")
    case False
    then show ?thesis using assms by (intro exited) (auto simp: defs split: option.splits if_splits)
  next
    case True
    obtain r l1 where new: "new_postdata (pf_json P) (pf_exposer P) (pf_fs P) (pf_memory P) (Some (pf_exec_fd P))
        config_file verbose file_path = (r, l1)" by fastforce
    show ?thesis
    proof (cases r)
      case (Inl x)
      then show ?thesis using assms True new by (intro thrown [of x l1]) (auto simp: defs)
    next
      case (Inr p)
      show ?thesis
      proof (cases "pf_attach P = 0 \<and> pf_ring P = None")
        case True
        then show ?thesis
          using assms \<open>pf_open P = None \<and> pf_load P = 0\<close> new Inr by (intro running [of p l1]) (auto simp: defs)
      next
        case False
        then show ?thesis
          using assms True new Inr
          by (auto simp: defs delete_obj_def split: if_splits option.splits intro: exited)
      qed
    qed
  qed
qed

lemma main_loop_released: "main_loop P xs S = Some (Exited r, S', l) \<Longrightarrow> released S'"
proof (induction P xs S arbitrary: l rule: main_loop.induct)
  case (2 P x xs S)
  then show ?case
    by (auto simp: Let_def split: option.splits sum.splits prod.splits if_splits dest!: shut_down_released)
qed simp

definition holds_all :: "process \<Rightarrow> bool" where
  "holds_all S \<longleftrightarrow> ps_ptr S \<and> ps_skel S \<and> ps_ring S \<and> ps_obj S \<noteq> None"

lemma handle_event_obj: "handle_event E data sz (Some p) = Some (r, q, l) \<Longrightarrow> q \<noteq> None"
  by (auto simp: handle_event_def split: option.splits if_splits sum.splits prod.splits)

lemma ring_poll_obj: "ring_poll es p = Some (r, q, l) \<Longrightarrow> p \<noteq> None \<Longrightarrow> q \<noteq> None"
proof (induction es arbitrary: p r l)
  case (Cons x es)
  obtain E e sz where x: "x = (E, e, sz)" by (cases x) auto
  obtain p' where p': "p = Some p'" using Cons.prems(2) by blast
  obtain r1 q1 l1 where h: "handle_event E (Some e) sz p = Some (r1, q1, l1)"
    using Cons.prems(1) x by (auto split: option.splits)
  then have q1: "q1 \<noteq> None" unfolding p' by (rule handle_event_obj)
  have "q = q1 \<or> (\<exists>r2 l2. ring_poll es q1 = Some (r2, q, l2))"
    using Cons.prems(1) h by (auto simp: x split: option.splits sum.splits prod.splits if_splits)
  then show ?case using Cons.IH q1 by blast
qed simp

lemma main_loop_step:
  assumes "main_loop P (x # xs) S = Some (st, S', l)" and "ps_obj S \<noteq> None"
  obtains p f where "p \<noteq> None" and "st = Terminated f" and "S' = S\<lparr>ps_obj := p\<rparr>"
  | r where "st = Exited r" and "ps_ptr S' = ps_ptr S"
  | p l2 where "p \<noteq> None" and "main_loop P xs (S\<lparr>ps_obj := p\<rparr>) = Some (st, S', l2)"
proof -
  obtain r p l1 where once: "poll_once x (ps_obj S) = Some (r, p, l1)"
    using assms(1) by (auto split: option.splits)
  then have p: "p \<noteq> None" using assms(2) ring_poll_obj by (cases x) (auto simp: poll_once_def)
  show ?thesis
  proof (cases r)
    case (Inl f)
    then show ?thesis using assms(1) once p that(1) [of p f] by auto
  next
    case (Inr err)
    show ?thesis
    proof (cases "err < 0")
      case True
      then show ?thesis using assms(1) once Inr that(2)
        by (auto simp: Let_def split: prod.splits dest!: shut_down_released)
    next
      case False
      then show ?thesis using assms(1) once Inr p that(3) by (auto simp: Let_def split: option.splits)
    qed
  qed
qed

lemma main_loop_holds:
  "main_loop P xs S = Some (st, S', l) \<Longrightarrow> holds_all S \<Longrightarrow> ps_ptr S' \<and> (st = Running \<longrightarrow> holds_all S')"
proof (induction xs arbitrary: S l)
  case (Cons x xs)
  from Cons.prems(2) have "ps_obj S \<noteq> None" by (simp add: holds_all_def)
  from main_loop_step [OF Cons.prems(1) this] show ?case
  proof cases
    case (3 p l2)
    then show ?thesis using Cons.IH [OF 3(2)] Cons.prems(2) by (simp add: holds_all_def)
  qed (use Cons.prems(2) in \<open>auto simp: holds_all_def\<close>)
qed (auto simp: holds_all_def)

lemma run_main_cases:
  assumes "run_main P argv0 opts polls = Some (st, S, l)"
  shows "(\<forall>r. st = Exited r \<longrightarrow> released S) \<and> (st = Running \<longrightarrow> holds_all S)"
proof (cases "parse_options (pf_fs P) argv0 opts (default_config, [], False)")
  case (Inl msg)
  then show ?thesis using assms by (auto simp: run_main_def released_def no_process_def)
next
  case (Inr c)
  obtain cf fp v where c: "c = (cf, fp, v)" by (cases c) auto
  obtain st1 S1 l1 where up: "start_up P cf v fp = (st1, S1, l1)" by (cases "start_up P cf v fp") auto
  show ?thesis
  proof (cases rule: start_up_cases [OF up])
    case 1
    then show ?thesis using assms Inr c up by (auto simp: run_main_def)
  next
    case (2 x l')
    then show ?thesis using assms Inr c up by (auto simp: run_main_def)
  next
    case (3 p l')
    then have "holds_all S1" by (simp add: holds_all_def)
    with 3 assms Inr c up show ?thesis
      by (auto simp: run_main_def split: option.splits dest: main_loop_released main_loop_holds)
  qed
qed

section \<open>What a request changes\<close>

definition running_view :: "postdata \<Rightarrow> bool \<times> int \<times> json list \<times> exporter option \<times> bool \<times> string list" where
  "running_view p = (pd_cache_data p, pd_max_event_queue_size p, pd_event_queue p, pd_exporter p, pd_verbose p,
     pd_skip_processes p)"

lemma persist_view: "persist_config J f p = (r, f', q, l) \<Longrightarrow> running_view q = running_view p"
  by (auto simp: persist_config_def running_view_def Let_def split: sum.splits prod.splits option.splits if_splits)

lemma update_view: "update_config J j f p = (r, f', q, l) \<Longrightarrow> running_view q = running_view p"
  by (auto simp: update_config_def Let_def split: sum.splits prod.splits option.splits if_splits dest!: persist_view)
    (simp_all add: running_view_def)

lemma update_request_view: "handle_update_config_request J body f p = (r, f', q, l) \<Longrightarrow> running_view q = running_view p"
  by (auto simp: handle_update_config_request_def split: sum.splits prod.splits if_splits dest!: update_view)

lemma object_ok_view: "running_view p = running_view q \<Longrightarrow> object_ok p = object_ok q"
  by (simp add: object_ok_def queue_inv_def running_view_def)

lemma monitor_effect:
  assumes "queue_inv p" and "monitor_file_status J param p = (r, q, l)"
  shows "\<exists>n. q = p\<lparr>pd_event_queue := drop n (pd_event_queue p)\<rparr>"
proof -
  obtain n ls where n: "wanted_count J param (pd_max_event_queue_size p) = (n, ls)" by fastforce
  then have "0 < n" using wanted_count_range [of J param "pd_max_event_queue_size p"] by simp
  from get_events_spec [OF assms(1) this] assms(2) n show ?thesis
    by (auto simp: monitor_file_status_def Let_def split: sum.splits if_splits)
qed

lemma queue_inv_drop: "queue_inv p \<Longrightarrow> queue_inv (p\<lparr>pd_event_queue := drop n (pd_event_queue p)\<rparr>)"
  by (simp add: queue_inv_def) arith

lemma serve_keeps:
  assumes "object_ok p" and "serve J r f p = (res, f', q, l)"
  shows "object_ok q" and "\<exists>n. pd_event_queue q = drop n (pd_event_queue p)"
    and "pd_exporter q = pd_exporter p" and "pd_verbose q = pd_verbose p" and "pd_cache_data q = pd_cache_data p"
    and "pd_max_event_queue_size q = pd_max_event_queue_size p"
proof -
  have "running_view q = running_view p \<or>
    (pd_cache_data p \<and> (\<exists>n. q = p\<lparr>pd_event_queue := drop n (pd_event_queue p)\<rparr>))"
  proof (cases r)
    case (Get_monitor_file_status param)
    show ?thesis
    proof (cases "pd_cache_data p")
      case True
      then have "queue_inv p" using assms(1) by (simp add: object_ok_def)
      then show ?thesis using assms(2) Get_monitor_file_status True
        by (auto simp: serve_def registered_def route_def split: prod.splits dest!: monitor_effect)
    next
      case False
      then show ?thesis using assms(2) Get_monitor_file_status by (simp add: serve_def registered_def route_def)
    qed
  qed (use assms(2) in \<open>auto simp: serve_def registered_def route_def split: prod.splits dest!: update_request_view\<close>)
  then have "object_ok q \<and> (\<exists>n. pd_event_queue q = drop n (pd_event_queue p)) \<and> pd_exporter q = pd_exporter p \<and>
      pd_verbose q = pd_verbose p \<and> pd_cache_data q = pd_cache_data p \<and>
      pd_max_event_queue_size q = pd_max_event_queue_size p"
  proof
    assume view: "running_view q = running_view p"
    show ?thesis
      using object_ok_view [OF view] assms(1) view by (auto simp: running_view_def intro: exI [of _ "0::nat"])
  next
    assume "pd_cache_data p \<and> (\<exists>n. q = p\<lparr>pd_event_queue := drop n (pd_event_queue p)\<rparr>)"
    then show ?thesis using assms(1) by (auto simp: object_ok_def queue_inv_drop)
  qed
  then show "object_ok q" and "\<exists>n. pd_event_queue q = drop n (pd_event_queue p)"
    and "pd_exporter q = pd_exporter p" and "pd_verbose q = pd_verbose p" and "pd_cache_data q = pd_cache_data p"
    and "pd_max_event_queue_size q = pd_max_event_queue_size p"
    by blast+
qed

section \<open>Properties\<close>

lemma parse_options_sound:
  assumes "parse_options f argv0 opts (cf0, fp0, v0) = Inr (cf, fp, v)"
    and "if v0 then fp0 \<noteq> [] \<and> hd fp0 = SLASH \<and> read_file f fp0 \<noteq> None else fp0 = []" and "\<not> fs_may_open f []"
  shows "if v then fp \<noteq> [] \<and> hd fp = SLASH \<and> read_file f fp \<noteq> None else fp = []"
  using assms
proof (induction opts arbitrary: cf0 fp0 v0)
  case (Cons x opts)
  obtain opt optarg where x: "x = (opt, optarg)" by fastforce
  have "read_file f [] = None" using Cons.prems(3) by (simp add: read_file_def)
  then have "read_file f optarg \<noteq> None \<Longrightarrow> optarg \<noteq> [] \<and> optarg ! 0 = hd optarg"
    by (cases optarg) auto
  then show ?case
    using Cons.prems Cons.IH [of optarg fp0 v0] Cons.IH [of cf0 optarg True]
    by (auto simp: x split: if_splits)
qed (auto split: if_splits)

text \<open>A platform on which the sample configuration is loaded.\<close>

definition sample_platform :: platform where
  "sample_platform = \<lparr>pf_json = num_json, pf_exposer = (\<lambda>_. None), pf_fs = sample_fs 0, pf_memory = sample_object,
     pf_getpid = 7, pf_open = None, pf_load = 0, pf_attach = 0, pf_ring = None, pf_exec_fd = 3,
     pf_strerror = (\<lambda>_. ''error''), pf_errno = 0, pf_listen = True\<rparr>"

lemma sample_initial: "outside_config (initial_object sample_path False [] sample_object) = outside_config sample_object"
  by (simp add: outside_config_def initial_object_def fresh_object_def sample_object_def)

lemma sample_started:
  "\<exists>l. new_postdata num_json (\<lambda>_. None) (sample_fs room) sample_object (Some 3) sample_path False [] =
    (Inr (completed 3 sample_object), l)"
proof -
  obtain l where "load_config num_json (sample_fs room) sample_path sample_object = (Inr 0, sample_object, l)"
    using sample_loads by blast
  then obtain l1 where load: "load_config num_json (sample_fs room) sample_path
      (initial_object sample_path False [] sample_object) = (Inr 0, sample_object, l1)"
    using load_config_zero [OF num_json_ok] sample_initial by metis
  have "read_file (sample_fs room) sample_path \<noteq> None" "sample_path \<noteq> []"
    by (simp_all add: read_file_def sample_fs_def contents_def sample_path_def)
  moreover have "pd_config_json (initial_object sample_path False [] sample_object) = sample_path"
    by (simp add: initial_object_def)
  moreover have "pd_exporter_address (sample_object\<lparr>pd_skel := True, pd_exec_map_fd := 3\<rparr>) \<noteq> []"
    by (simp add: sample_object_def)
  ultimately show ?thesis
    using load by (simp add: new_postdata_def exporter_start_def make_exporter_def add_counter_def completed_def Let_def)
qed

text \<open>C12: An object the constructor returns is ready to run: its configuration passed every check of
  \<open>load_config\<close>, its queue is empty and respects its bound, its exporter runs without any series and with
  the counter at zero, the descriptor of the process table is valid, and the options are the ones given.\<close>

theorem constructed_object_is_ready:
  assumes "json_ok J" and "new_postdata J exposer f memory skel configFile verb path = (Inr p, l)"
  shows "config_ok p \<and> object_ok p \<and> pd_event_queue p = [] \<and> 0 \<le> pd_exec_map_fd p \<and>
    pd_verbose p = verb \<and> pd_monitor_file_path p = path \<and>
    (\<exists>X. pd_exporter p = Some X \<and> ex_counter X = Some 0 \<and> ex_series X = [] \<and> ex_timeout X = pd_cache_timeout_seconds p)"
proof -
  obtain q fd where "p = completed fd q" using new_postdata_Inr [OF assms(2)] by metis
  then have "\<exists>X. pd_exporter p = Some X \<and> ex_counter X = Some 0 \<and> ex_series X = [] \<and>
      ex_timeout X = pd_cache_timeout_seconds p"
    by (simp add: completed_def new_exporter_def)
  then show ?thesis using new_postdata_config [OF assms] by blast
qed

theorem constructed_object_is_ready_witness:
  "\<exists>l. new_postdata num_json (\<lambda>_. None) (sample_fs 0) sample_object (Some 3) sample_path False [] =
     (Inr (completed 3 sample_object), l) \<and> object_ok (completed 3 sample_object)"
proof -
  obtain l where "new_postdata num_json (\<lambda>_. None) (sample_fs 0) sample_object (Some 3) sample_path False [] =
    (Inr (completed 3 sample_object), l)" using sample_started by blast
  from this constructed_object_is_ready [OF num_json_ok this] show ?thesis by blast
qed

lemma sample_run:
  "\<exists>S l. run_main sample_platform ''ft'' [(CHR ''c'', sample_path)] [] = Some (Running, S, l)"
proof -
  obtain l where "new_postdata num_json (\<lambda>_. None) (sample_fs 0) sample_object (Some 3) sample_path False [] =
    (Inr (completed 3 sample_object), l)" using sample_started by blast
  then show ?thesis by (simp add: run_main_def start_up_def sample_platform_def Let_def no_process_def)
qed

text \<open>A configuration with publishing enabled, and the object it leads to.\<close>

definition public_members :: "(string \<times> json) list" where
  "public_members = om_put ''publish'' (JBool True) sample_members"

definition public_object :: postdata where
  "public_object = sample_object\<lparr>pd_publish := True, pd_config_json_obj := JObj public_members\<rparr>"

definition public_platform :: platform where
  "public_platform = sample_platform\<lparr>pf_fs := (sample_fs 0)
     \<lparr>fs_data := (\<lambda>_. dec_of_nat (to_nat (JObj public_members)))\<rparr>\<rparr>"

lemma public_members_eq: "public_members =
  [(''config_list'', of_strings [''/etc/hosts'']), (''domain_name'', JStr ''dom''),
     (''host_id'', JStr ''h1''), (''publish'', JBool True), (''ragdoll_api'', JStr ''http://a/b''),
     (''skip_processes_list'', of_strings [])]"
  by (simp add: public_members_def sample_members_def less_char_def)

lemma public_loads: "\<exists>l. load_config num_json (pf_fs public_platform) sample_path
  (initial_object sample_path False [] sample_object) = (Inr 0, public_object, l)"
proof -
  have "read_file (pf_fs public_platform) sample_path = Some (dec_of_nat (to_nat (JObj public_members)))"
    by (simp add: read_file_def sample_fs_def contents_def public_platform_def)
  moreover have "json_wf (JObj public_members)"
    by (simp add: public_members_eq of_strings_def om_wf_def less_char_def)
  then have "j_read num_json (dec_of_nat (to_nat (JObj public_members))) = Inr (JObj public_members)"
    by (simp add: num_json_def num_parse_def scan_int_dec_of_nat Let_def public_members_eq of_strings_def
        strict_utf8_ascii ascii_def byte_of_def del: json_wf.simps)
  moreover have "reads num_json public_members public_object"
    by (simp add: reads_def public_members_eq public_object_def sample_object_def value_or_def string_at_def
        strings_at_def positive_or_def log_bytes_100)
  moreover have "config_ok public_object"
    using sample_config_ok by (simp add: config_ok_def levels_ok_def public_object_def)
  moreover have "outside_config public_object = outside_config (initial_object sample_path False [] sample_object)"
    using sample_initial by (simp add: outside_config_def public_object_def)
  moreover have "pd_config_json_obj public_object = JObj public_members" by (simp add: public_object_def)
  ultimately show ?thesis using load_config_zero [OF num_json_ok] by blast
qed

lemma public_new:
  "\<exists>p l. new_postdata num_json (\<lambda>_. None) (pf_fs public_platform) sample_object (Some 3) sample_path False [] =
      (Inr p, l) \<and> pd_publish p"
proof -
  obtain l where load: "load_config num_json (pf_fs public_platform) sample_path
    (initial_object sample_path False [] sample_object) = (Inr 0, public_object, l)" using public_loads by blast
  have "read_file (pf_fs public_platform) sample_path \<noteq> None" "sample_path \<noteq> []"
    by (simp_all add: read_file_def sample_fs_def contents_def sample_path_def public_platform_def)
  moreover have "pd_config_json (initial_object sample_path False [] sample_object) = sample_path"
    by (simp add: initial_object_def)
  moreover have "pd_exporter_address (public_object\<lparr>pd_skel := True, pd_exec_map_fd := 3\<rparr>) \<noteq> []" "pd_publish public_object"
    by (simp_all add: sample_object_def public_object_def)
  ultimately show ?thesis
    using load by (simp add: new_postdata_def exporter_start_def make_exporter_def add_counter_def Let_def)
qed

text \<open>C13: Whenever \<open>main\<close> returns, whatever failed, it has destroyed the skeleton, deleted the object and
  freed the ring buffer, and while it runs it holds all three.\<close>

theorem main_releases_what_it_holds:
  assumes "run_main P argv0 opts polls = Some (st, S, l)"
  shows "(\<forall>r. st = Exited r \<longrightarrow> \<not> ps_skel S \<and> \<not> ps_attached S \<and> ps_obj S = None \<and> \<not> ps_ring S) \<and>
    (st = Running \<longrightarrow> ps_skel S \<and> ps_ring S \<and> ps_obj S \<noteq> None)"
  using run_main_cases [OF assms] by (auto simp: released_def holds_all_def)

theorem main_releases_what_it_holds_witness:
  "\<exists>S l. run_main sample_platform ''ft'' [(CHR ''c'', sample_path)] [] = Some (Running, S, l) \<and> ps_skel S"
  using sample_run main_releases_what_it_holds [of sample_platform "''ft''" "[(CHR ''c'', sample_path)]" "[]" Running]
  by blast

text \<open>C20: A configuration that does not load ends the daemon by an exception nothing catches
  instead of an error exit: \<open>main\<close> never gets to the line that destroys the skeleton.\<close>

theorem bad_configuration_aborts:
  assumes "json_ok (pf_json P)" and "pf_open P = None" and "pf_load P = 0"
    and "parse_options (pf_fs P) argv0 opts (default_config, [], False) = Inr (cf, fp, v)"
    and "\<And>q l. load_config (pf_json P) (pf_fs P) cf (initial_object cf v fp (pf_memory P)) \<noteq> (Inr 0, q, l)"
  shows "\<exists>msg S l. run_main P argv0 opts polls = Some (Terminated (Throw (Runtime_error msg)), S, l) \<and> ps_skel S"
proof -
  let ?p = "initial_object cf v fp (pf_memory P)"
  obtain r q l where load: "load_config (pf_json P) (pf_fs P) cf ?p = (r, q, l)" by (metis prod_cases3)
  then have "r = Inr (-1)" using load_config_cases [OF assms(1), of "pf_fs P" cf ?p] assms(5) [of q l] by auto
  moreover have "pd_config_json ?p = cf" by (simp add: initial_object_def)
  ultimately have "\<exists>msg l'. new_postdata (pf_json P) (pf_exposer P) (pf_fs P) (pf_memory P) (Some (pf_exec_fd P)) cf v fp =
      (Inl (Throw (Runtime_error msg)), l')"
    using load by (simp add: new_postdata_def Let_def)
  then show ?thesis using assms(2-4) by (auto simp: run_main_def start_up_def Let_def)
qed

theorem bad_configuration_aborts_witness:
  "\<exists>msg S l. run_main (sample_platform\<lparr>pf_fs := (sample_fs 0)\<lparr>fs_names := Map.empty\<rparr>\<rparr>) ''ft'' [] [] =
    Some (Terminated (Throw (Runtime_error msg)), S, l) \<and> ps_skel S"
  by (rule bad_configuration_aborts [where cf = default_config and fp = "[]" and v = False])
    (simp_all add: sample_platform_def num_json_ok load_config_def read_file_def contents_def)

lemma main_loop_server: "main_loop P xs S = Some (st, S', l) \<Longrightarrow> ps_server S' = ps_server S"
proof (induction P xs S arbitrary: l rule: main_loop.induct)
  case (2 P x xs S)
  then show ?case
    by (auto simp: Let_def split: option.splits sum.splits prod.splits if_splits dest!: shut_down_released)
qed simp

lemma new_postdata_server:
  "new_postdata J exposer f memory skel cf v path = (Inr p, l) \<Longrightarrow> pd_publish p \<Longrightarrow> Start_server \<in> set l"
  by (auto simp: new_postdata_def Let_def split: if_splits sum.splits option.splits prod.splits)

lemma run_main_server:
  assumes "parse_options (pf_fs P) argv0 opts (default_config, [], False) = Inr (cf, fp, v)"
    and "pf_open P = None" and "pf_load P = 0"
    and "new_postdata (pf_json P) (pf_exposer P) (pf_fs P) (pf_memory P) (Some (pf_exec_fd P)) cf v fp = (Inr p, l0)"
    and "run_main P argv0 opts polls = Some (st, S, l)"
  shows "ps_server S = (if Start_server \<in> set l0 \<and> pf_listen P then Some (pd_cache_data p) else None)"
proof -
  obtain st1 S1 l1 where up: "start_up P cf v fp = (st1, S1, l1)" by (cases "start_up P cf v fp") auto
  then have "ps_server S1 = (if Start_server \<in> set l0 \<and> pf_listen P then Some (pd_cache_data p) else None)"
    using assms(2-4) by (auto simp: start_up_def Let_def delete_obj_def destroy_skel_def no_process_def run_server_def
        split: if_splits option.splits)
  then show ?thesis
    using assms(1,5) up by (auto simp: run_main_def split: status.splits option.splits dest: main_loop_server)
qed

text \<open>C18: The HTTP server runs on a detached thread that nothing stops. On a platform where the
  skeleton loads, the object is constructed with publishing enabled and the address can be listened
  on, a request for a registered route is answered as long as the polling loop runs; once \<open>main\<close> has
  returned, be it that the programs could not be attached, that there was no ring buffer or that
  polling failed, the server is still there, and until the process ends the same request works on
  the deleted object.\<close>

theorem server_outlives_object:
  assumes "parse_options (pf_fs P) argv0 opts (default_config, [], False) = Inr (cf, fp, v)"
    and "pf_open P = None" and "pf_load P = 0" and "pf_listen P"
    and "new_postdata (pf_json P) (pf_exposer P) (pf_fs P) (pf_memory P) (Some (pf_exec_fd P)) cf v fp = (Inr p, l0)"
    and "pd_publish p" and "route (pd_cache_data p) rq"
    and "run_main P argv0 opts polls = Some (st, S, l)"
  shows "(st = Running \<longrightarrow> (\<exists>res f' q l1. server_request J rq f S = Some (Inr res, f', q, l1))) \<and>
    (\<forall>r. st = Exited r \<longrightarrow> (\<exists>f' q l1. server_request J rq f S = Some (Inl Undefined_behaviour, f', q, l1)))"
proof -
  have "ps_server S = Some (pd_cache_data p)"
    using run_main_server [OF assms(1-3,5,8)] new_postdata_server [OF assms(5,6)] assms(4) by simp
  then show ?thesis
    using run_main_cases [OF assms(8)] assms(7)
    by (auto simp: server_request_def holds_all_def released_def split: prod.splits option.splits)
qed

theorem server_outlives_object_witness:
  "\<exists>S l f' q l1. run_main (public_platform\<lparr>pf_attach := -1\<rparr>) ''ft'' [(CHR ''c'', sample_path)] [] =
      Some (Exited (-1), S, l) \<and>
    server_request num_json Get_filetrace (sample_fs 0) S = Some (Inl Undefined_behaviour, f', q, l1)"
proof -
  let ?P = "public_platform\<lparr>pf_attach := -1\<rparr>"
  obtain p l0 where new: "new_postdata num_json (\<lambda>_. None) (pf_fs public_platform) sample_object (Some 3) sample_path
      False [] = (Inr p, l0)" "pd_publish p" using public_new by blast
  have P: "pf_json ?P = num_json" "pf_exposer ?P = (\<lambda>_. None)" "pf_memory ?P = sample_object" "pf_open ?P = None"
    "pf_load ?P = 0" "pf_exec_fd ?P = 3" "pf_fs ?P = pf_fs public_platform" "pf_listen ?P" "pf_attach ?P = -1"
    by (simp_all add: public_platform_def sample_platform_def)
  have opts: "parse_options (pf_fs ?P) ''ft'' [(CHR ''c'', sample_path)] (default_config, [], False) =
    Inr (sample_path, [], False)" by simp
  obtain S l where run: "run_main ?P ''ft'' [(CHR ''c'', sample_path)] [] = Some (Exited (-1), S, l)"
    using new(1) by (simp add: run_main_def start_up_def P Let_def delete_obj_def)
  have new': "new_postdata (pf_json ?P) (pf_exposer ?P) (pf_fs ?P) (pf_memory ?P) (Some (pf_exec_fd ?P)) sample_path
      False [] = (Inr p, l0)" using new(1) by (simp only: P)
  have "route (pd_cache_data p) Get_filetrace" by (simp add: route_def)
  from server_outlives_object [OF opts P(4,5,8) new' new(2) this run] run show ?thesis by blast
qed

text \<open>A signal during the loop destroys the skeleton once and ends the daemon with status 0; a signal
  that arrives after \<open>main\<close> has destroyed it, on its way out, destroys it a second time, since the
  pointer is not reset.\<close>

lemma late_signal_destroys_twice:
  assumes "run_main P argv0 opts polls = Some (st, S, l)"
  shows "(st = Running \<longrightarrow> (\<exists>S' l'. sig_handler S = (Exited 0, S', l') \<and> \<not> ps_skel S')) \<and>
    (\<forall>r. st = Exited r \<and> ps_ptr S \<longrightarrow> fst (sig_handler S) = Terminated Undefined_behaviour)"
  using run_main_cases [OF assms]
  by (auto simp: sig_handler_def Let_def holds_all_def released_def destroy_skel_def)

text \<open>With the option \<open>-f\<close> the daemon only starts on an absolute path of a file it can read, and it is
  verbose exactly when that option was given; otherwise it prints why and returns 1.\<close>

lemma monitor_option_is_checked:
  assumes "\<not> fs_may_open f []"
  shows "case parse_options f argv0 opts (default_config, [], False) of
      Inr (cf, fp, v) \<Rightarrow> v = (fp \<noteq> []) \<and> (v \<longrightarrow> hd fp = SLASH \<and> read_file f fp \<noteq> None)
    | Inl msg \<Rightarrow> True"
  using parse_options_sound [of f argv0 opts default_config "[]" False] assms
  by (auto split: sum.splits if_splits)

end
