(* ===== verification/Kernel.thy ===== *)
theory Kernel
  imports Event
begin

text \<open>
  The BPF programs of \<open>src/filetrace.bpf.c\<close>. What they read of the kernel is data here: the dentries
  (a number each, 0 for a null pointer) with their names and parents, the current task, its open
  files. A read through a bad pointer delivers zero bytes, as \<open>bpf_probe_read\<close> documents; a string
  read is cut to the size of its buffer. The state of the programs is the ring buffer, with the
  records that are reserved, and \<open>exec_map\<close>. Every program is one step.
\<close>

section \<open>What the kernel offers\<close>

record kernel =
  kn_parent :: "nat \<Rightarrow> nat"
  kn_name :: "nat \<Rightarrow> string"

definition kernel_ok :: "kernel \<Rightarrow> bool" where
  "kernel_ok K \<longleftrightarrow> kn_parent K 0 = 0 \<and> kn_name K 0 = []"

record kfile =
  kf_inode :: "(u64 \<times> 16 word) option"
  kf_dentry :: nat

text \<open>The current task with the parts of its parent that are read; \<open>tk_cwd\<close> is \<open>None\<close> without \<open>fs\<close>.\<close>

record task =
  tk_tgid :: u32
  tk_comm :: string
  tk_flags :: u32
  tk_uid :: u32
  tk_gid :: u32
  tk_ptgid :: u32
  tk_ppid :: u32
  tk_pcomm :: string
  tk_cwd :: "nat option"
  tk_files :: "int \<Rightarrow> kfile option"

definition task_ok :: "task \<Rightarrow> bool" where
  "task_ok t \<longleftrightarrow> terminated TASK_COMM_LEN (tk_comm t) \<and> terminated TASK_COMM_LEN (tk_pcomm t)"

section \<open>State of the programs\<close>

record tracer =
  tr_self :: u32
  tr_events :: "event list"
  tr_reserved :: nat
  tr_exec :: "(u32 \<times> pinfo_t) list"

definition exec_map_entries :: nat where "exec_map_entries = 4096"

definition bpf_ringbuf_submit :: "event \<Rightarrow> tracer \<Rightarrow> tracer" where
  "bpf_ringbuf_submit e T = T\<lparr>tr_events := tr_events T @ [e], tr_reserved := tr_reserved T - 1\<rparr>"

definition bpf_ringbuf_discard :: "tracer \<Rightarrow> tracer" where
  "bpf_ringbuf_discard T = T\<lparr>tr_reserved := tr_reserved T - 1\<rparr>"

text \<open>A hash map refuses a new key when it is full.\<close>

definition bpf_map_update_elem :: "u32 \<Rightarrow> pinfo_t \<Rightarrow> tracer \<Rightarrow> tracer" where
  "bpf_map_update_elem k v T =
     (if map_of (tr_exec T) k \<noteq> None \<or> length (tr_exec T) < exec_map_entries
      then T\<lparr>tr_exec := om_put k v (tr_exec T)\<rparr> else T)"

text \<open>\<open>room\<close>: the ring buffer has space for one more record.\<close>

definition bpf_create_ringbuf :: "bool \<Rightarrow> task \<Rightarrow> tracer \<Rightarrow> event option \<times> tracer" where
  "bpf_create_ringbuf room t T =
     (if tr_self T \<noteq> 0 \<and> tk_tgid t = tr_self T then (None, T)
      else if \<not> room then (None, T)
      else (Some zero_event, T\<lparr>tr_reserved := tr_reserved T + 1\<rparr>))"

section \<open>Walking the directory entries\<close>

definition store_dir :: "nat \<Rightarrow> string \<Rightarrow> event \<Rightarrow> event" where
  "store_dir i s e =
     (let b = to_buf MAX_DIRNAME_LEN s in
      if i = 0 then e\<lparr>ev_dir1 := b\<rparr> else if i = 1 then e\<lparr>ev_dir2 := b\<rparr>
      else if i = 2 then e\<lparr>ev_dir3 := b\<rparr> else if i = 3 then e\<lparr>ev_dir4 := b\<rparr> else e)"

text \<open>The unrolled loop: \<open>n\<close> rounds are left, and round \<open>i\<close> fills the next slot.\<close>

fun walk_up :: "kernel \<Rightarrow> nat \<Rightarrow> nat \<Rightarrow> nat \<Rightarrow> event \<Rightarrow> event" where
  "walk_up K 0 i d e = e"
| "walk_up K (Suc n) i d e =
     (let d_parent = kn_parent K d in
      if d_parent = d then e
      else walk_up K n (Suc i) d_parent (store_dir i (kn_name K d_parent) e))"

definition fill_parent_dirs :: "kernel \<Rightarrow> event \<Rightarrow> nat \<Rightarrow> event" where
  "fill_parent_dirs K e d = walk_up K MAX_DEPTH 0 d e"

definition resolve_base_dentry :: "task \<Rightarrow> int \<Rightarrow> nat" where
  "resolve_base_dentry t dfd =
     (if dfd = AT_FDCWD then (case tk_cwd t of None \<Rightarrow> 0 | Some d \<Rightarrow> d)
      else if dfd < 0 then 0
      else (case tk_files t dfd of None \<Rightarrow> 0 | Some file \<Rightarrow> kf_dentry file))"

definition fill_dir_chain :: "kernel \<Rightarrow> event \<Rightarrow> nat \<Rightarrow> event" where
  "fill_dir_chain K e d =
     (if d = 0 then e else walk_up K (MAX_DEPTH - 1) 1 d (store_dir 0 (kn_name K d) e))"

section \<open>The programs\<close>

definition put_task :: "task \<Rightarrow> event \<Rightarrow> event" where
  "put_task t e = e\<lparr>ev_pid := tk_tgid t, ev_cmd := tk_comm t, ev_ppid := tk_ptgid t, ev_pcmd := tk_pcomm t\<rparr>"

definition put_ids :: "task \<Rightarrow> event \<Rightarrow> event" where
  "put_ids t e = e\<lparr>ev_uid := tk_uid t, ev_gid := tk_gid t\<rparr>"

definition put_name :: "string \<Rightarrow> event \<Rightarrow> event" where
  "put_name s e = e\<lparr>ev_filename := to_buf MAX_FILENAME_LEN s\<rparr>"

definition enter_openat :: "bool \<Rightarrow> task \<Rightarrow> string \<Rightarrow> tracer \<Rightarrow> tracer" where
  "enter_openat room t pathname T =
     (case bpf_create_ringbuf room t T of
        (None, T1) \<Rightarrow> T1
      | (Some e, T1) \<Rightarrow>
          bpf_ringbuf_submit (put_name pathname (put_task t (e\<lparr>ev_flag := flag_code SYS_openat\<rparr>))) T1)"

definition enter_unlinkat :: "kernel \<Rightarrow> bool \<Rightarrow> task \<Rightarrow> int \<Rightarrow> string \<Rightarrow> tracer \<Rightarrow> tracer" where
  "enter_unlinkat K room t dfd pathname T =
     (case bpf_create_ringbuf room t T of
        (None, T1) \<Rightarrow> T1
      | (Some e, T1) \<Rightarrow>
          (let e1 = put_name pathname (put_task t (e\<lparr>ev_flag := flag_code SYS_unlinkat\<rparr>));
               e2 = (if hd (ev_filename e1) \<noteq> SLASH
                     then fill_dir_chain K e1 (resolve_base_dentry t dfd) else e1)
           in bpf_ringbuf_submit e2 T1))"

definition is_regular :: "16 word \<Rightarrow> bool" where
  "is_regular mode \<longleftrightarrow> and mode S_IFMT = S_IFREG"

definition create_file_event :: "kernel \<Rightarrow> bool \<Rightarrow> task \<Rightarrow> kfile option \<Rightarrow> syscall_flag \<Rightarrow> tracer \<Rightarrow>
    event option \<times> tracer" where
  "create_file_event K room t file flag T =
     (case bpf_create_ringbuf room t T of
        (None, T1) \<Rightarrow> (None, T1)
      | (Some e, T1) \<Rightarrow>
          (let e1 = put_task t (put_ids t (e\<lparr>ev_flag := flag_code flag\<rparr>)) in
           case file of
             None \<Rightarrow> (None, bpf_ringbuf_discard T1)
           | Some f \<Rightarrow>
               (case kf_inode f of
                  None \<Rightarrow> (None, bpf_ringbuf_discard T1)
                | Some (i_ino, mode) \<Rightarrow>
                    (let e2 = e1\<lparr>ev_i_ino := i_ino\<rparr> in
                     if \<not> is_regular mode then (None, bpf_ringbuf_discard T1)
                     else if kf_dentry f = 0 then (None, bpf_ringbuf_discard T1)
                     else (Some (put_name (kn_name K (kf_dentry f)) (fill_parent_dirs K e2 (kf_dentry f))), T1)))))"

definition copy_file_range :: "kernel \<Rightarrow> bool \<Rightarrow> task \<Rightarrow> int \<Rightarrow> tracer \<Rightarrow> tracer" where
  "copy_file_range K room t fd T =
     (case create_file_event K room t (tk_files t fd) SYS_copy_file_range T of
        (None, T1) \<Rightarrow> T1 | (Some e, T1) \<Rightarrow> bpf_ringbuf_submit e T1)"

definition handle_rename :: "task \<Rightarrow> event \<Rightarrow> string \<Rightarrow> string \<Rightarrow> tracer \<Rightarrow> tracer" where
  "handle_rename t e oldfilename filename T =
     bpf_ringbuf_submit
       ((put_name filename (put_task t (put_ids t e)))\<lparr>ev_oldfilename := to_buf MAX_FILENAME_LEN oldfilename\<rparr>) T"

text \<open>\<open>rename\<close> exists only on x86.\<close>

definition rename_sys :: "bool \<Rightarrow> task \<Rightarrow> string \<Rightarrow> string \<Rightarrow> tracer \<Rightarrow> tracer" where
  "rename_sys room t oldpath newpath T =
     (case bpf_create_ringbuf room t T of
        (None, T1) \<Rightarrow> T1
      | (Some e, T1) \<Rightarrow> handle_rename t (e\<lparr>ev_flag := flag_code SYS_rename\<rparr>) oldpath newpath T1)"

definition renameat :: "bool \<Rightarrow> task \<Rightarrow> string \<Rightarrow> string \<Rightarrow> tracer \<Rightarrow> tracer" where
  "renameat room t oldpath newpath T =
     (case bpf_create_ringbuf room t T of
        (None, T1) \<Rightarrow> T1
      | (Some e, T1) \<Rightarrow> handle_rename t (e\<lparr>ev_flag := flag_code SYS_renameat\<rparr>) oldpath newpath T1)"

text \<open>The base directory is compared as an unsigned number; a null \<open>fs\<close> reads as a null dentry.\<close>

definition renameat2 :: "kernel \<Rightarrow> bool \<Rightarrow> task \<Rightarrow> u32 \<Rightarrow> string \<Rightarrow> string \<Rightarrow> tracer \<Rightarrow> tracer" where
  "renameat2 K room t newdfd oldpath newpath T =
     (case bpf_create_ringbuf room t T of
        (None, T1) \<Rightarrow> T1
      | (Some e, T1) \<Rightarrow>
          (let e1 = put_name newpath (put_task t (e\<lparr>ev_flag := flag_code SYS_renameat2\<rparr>));
               e2 = e1\<lparr>ev_oldfilename := to_buf MAX_FILENAME_LEN oldpath\<rparr>;
               dentry = (case tk_cwd t of None \<Rightarrow> 0 | Some d \<Rightarrow> d);
               e3 = (if newdfd = word_of_int AT_FDCWD then fill_parent_dirs K e2 dentry else e2)
           in bpf_ringbuf_submit (put_ids t e3) T1))"

text \<open>The two programs on process execution do the same; the arguments stay empty.\<close>

definition exec_entry :: "task \<Rightarrow> pinfo_t" where
  "exec_entry t = zero_pinfo\<lparr>pi_pid := tk_ppid t, pi_comm := to_buf MAX_CMD_LEN (tk_comm t)\<rparr>"

definition enter_execve :: "task \<Rightarrow> tracer \<Rightarrow> tracer" where
  "enter_execve t T = bpf_map_update_elem (tk_tgid t) (exec_entry t) T"

definition sched_process_exec :: "task \<Rightarrow> tracer \<Rightarrow> tracer" where
  "sched_process_exec t T = bpf_map_update_elem (tk_tgid t) (exec_entry t) T"

definition MAY_WRITE :: u32 where "MAY_WRITE = 2"

text \<open>The part the two write programs share, once the record is reserved.\<close>

definition write_event :: "kernel \<Rightarrow> task \<Rightarrow> event \<Rightarrow> kfile option \<Rightarrow> event option" where
  "write_event K t e file =
     (let e1 = put_task t (put_ids t (e\<lparr>ev_flag := flag_code SYS_write\<rparr>));
          (i_ino, mode) = (case file of None \<Rightarrow> (0, 0)
             | Some f \<Rightarrow> (case kf_inode f of None \<Rightarrow> (0, 0) | Some im \<Rightarrow> im));
          dentry = (case file of None \<Rightarrow> 0 | Some f \<Rightarrow> kf_dentry f)
      in if \<not> is_regular mode then None
         else Some (put_name (kn_name K dentry) (fill_parent_dirs K (e1\<lparr>ev_i_ino := i_ino\<rparr>) dentry)))"

definition trace_write :: "kernel \<Rightarrow> bool \<Rightarrow> task \<Rightarrow> kfile \<Rightarrow> u32 \<Rightarrow> tracer \<Rightarrow> tracer" where
  "trace_write K room t file access T =
     (if and access MAY_WRITE = 0 then T
      else
        (case bpf_create_ringbuf room t T of
           (None, T1) \<Rightarrow> T1
         | (Some e, T1) \<Rightarrow>
             (case write_event K t e (Some file) of
                None \<Rightarrow> bpf_ringbuf_discard T1 | Some e1 \<Rightarrow> bpf_ringbuf_submit e1 T1)))"

definition write_sys :: "kernel \<Rightarrow> bool \<Rightarrow> task \<Rightarrow> int \<Rightarrow> tracer \<Rightarrow> tracer" where
  "write_sys K room t fd T =
     (if and (tk_flags t) PF_KTHREAD \<noteq> 0 then T
      else
        (case bpf_create_ringbuf room t T of
           (None, T1) \<Rightarrow> T1
         | (Some e, T1) \<Rightarrow>
             (case write_event K t e (tk_files t fd) of
                None \<Rightarrow> bpf_ringbuf_discard T1 | Some e1 \<Rightarrow> bpf_ringbuf_submit e1 T1)))"

section \<open>All the programs\<close>

datatype hook =
    Openat string
  | Unlinkat int string
  | Copy_file_range int
  | Rename string string
  | Renameat string string
  | Renameat2 u32 string string
  | Execve
  | Process_exec
  | Trace_write kfile u32
  | Write int

fun run_hook :: "kernel \<Rightarrow> bool \<Rightarrow> task \<Rightarrow> hook \<Rightarrow> tracer \<Rightarrow> tracer" where
  "run_hook K room t (Openat path) T = enter_openat room t path T"
| "run_hook K room t (Unlinkat dfd path) T = enter_unlinkat K room t dfd path T"
| "run_hook K room t (Copy_file_range fd) T = copy_file_range K room t fd T"
| "run_hook K room t (Rename old new) T = rename_sys room t old new T"
| "run_hook K room t (Renameat old new) T = renameat room t old new T"
| "run_hook K room t (Renameat2 dfd old new) T = renameat2 K room t dfd old new T"
| "run_hook K room t Execve T = enter_execve t T"
| "run_hook K room t Process_exec T = sched_process_exec t T"
| "run_hook K room t (Trace_write file access) T = trace_write K room t file access T"
| "run_hook K room t (Write fd) T = write_sys K room t fd T"

text \<open>
  The states of the BPF side: loaded with the tracer's own process id, then any programs, run by any
  tasks, with or without room in the ring buffer.
\<close>

definition loaded :: "u32 \<Rightarrow> tracer" where
  "loaded self = \<lparr>tr_self = self, tr_events = [], tr_reserved = 0, tr_exec = []\<rparr>"

inductive bpf_step :: "kernel \<Rightarrow> tracer \<Rightarrow> tracer \<Rightarrow> bool" for K where
  run_program: "task_ok t \<Longrightarrow> bpf_step K T (run_hook K room t h T)"

inductive_cases bpf_stepE: "bpf_step K T T'"

abbreviation bpf_runs :: "kernel \<Rightarrow> tracer \<Rightarrow> tracer \<Rightarrow> bool" where
  "bpf_runs K \<equiv> (bpf_step K)\<^sup>*\<^sup>*"

section \<open>What a program leaves behind\<close>

text \<open>
  \<open>quiet\<close> the state is as before, \<open>sent\<close> one event more. \<open>emits P\<close>: a program that either does
  nothing or sends one event with the property.
\<close>

definition emits :: "(event \<Rightarrow> bool) \<Rightarrow> tracer \<Rightarrow> tracer \<Rightarrow> bool" where
  "emits P T T' \<longleftrightarrow> T' = T \<or> (\<exists>e. P e \<and> T' = T\<lparr>tr_events := tr_events T @ [e]\<rparr>)"

lemma create_cases:
  obtains (none) "bpf_create_ringbuf room t T = (None, T)"
  | (some) "bpf_create_ringbuf room t T = (Some zero_event, T\<lparr>tr_reserved := tr_reserved T + 1\<rparr>)"
      "room" "tr_self T = 0 \<or> tk_tgid t \<noteq> tr_self T"
proof (cases "(tr_self T \<noteq> 0 \<and> tk_tgid t = tr_self T) \<or> \<not> room")
  case True
  then show ?thesis using none by (auto simp: bpf_create_ringbuf_def)
next
  case False
  then show ?thesis using some by (auto simp: bpf_create_ringbuf_def)
qed

lemma submit_reserved:
  "bpf_ringbuf_submit e (T\<lparr>tr_reserved := tr_reserved T + 1\<rparr>) = T\<lparr>tr_events := tr_events T @ [e]\<rparr>"
  "bpf_ringbuf_discard (T\<lparr>tr_reserved := tr_reserved T + 1\<rparr>) = T"
  by (simp_all add: bpf_ringbuf_submit_def bpf_ringbuf_discard_def)

lemmas submit_reserved_Suc = submit_reserved [unfolded Suc_eq_plus1 [symmetric]]

lemma store_dir_wf: "event_wf e \<Longrightarrow> event_wf (store_dir i s e)"
  by (simp add: store_dir_def event_wf_def Let_def to_buf_terminated size_consts)

lemma walk_up_wf: "event_wf e \<Longrightarrow> event_wf (walk_up K n i d e)"
  by (induction K n i d e rule: walk_up.induct) (simp_all add: store_dir_wf Let_def)

lemma fill_wf: "event_wf e \<Longrightarrow> event_wf (fill_parent_dirs K e d)" "event_wf e \<Longrightarrow> event_wf (fill_dir_chain K e d)"
  by (simp_all add: fill_parent_dirs_def fill_dir_chain_def walk_up_wf store_dir_wf)

lemma put_wf: "task_ok t \<Longrightarrow> event_wf e \<Longrightarrow> event_wf (put_task t e)" "event_wf e \<Longrightarrow> event_wf (put_ids t e)"
  "event_wf e \<Longrightarrow> event_wf (put_name s e)" "event_wf e \<Longrightarrow> event_wf (e\<lparr>ev_flag := f\<rparr>)"
  "event_wf e \<Longrightarrow> event_wf (e\<lparr>ev_i_ino := i\<rparr>)"
  "event_wf e \<Longrightarrow> event_wf (e\<lparr>ev_oldfilename := to_buf MAX_FILENAME_LEN s\<rparr>)"
  by (simp_all add: put_task_def put_ids_def put_name_def task_ok_def event_wf_def to_buf_terminated size_consts)

lemmas keeps_wf = put_wf fill_wf zero_event_wf

lemma walk_up_keeps:
  "ev_pid (walk_up K n i d e) = ev_pid e \<and> ev_flag (walk_up K n i d e) = ev_flag e \<and>
   ev_uid (walk_up K n i d e) = ev_uid e \<and> ev_gid (walk_up K n i d e) = ev_gid e \<and>
   ev_filename (walk_up K n i d e) = ev_filename e \<and> ev_i_ino (walk_up K n i d e) = ev_i_ino e \<and>
   ev_cmd (walk_up K n i d e) = ev_cmd e"
  by (induction K n i d e rule: walk_up.induct) (simp_all add: store_dir_def Let_def)

lemma fill_keeps [simp]:
  "ev_pid (fill_parent_dirs K e d) = ev_pid e" "ev_flag (fill_parent_dirs K e d) = ev_flag e"
  "ev_uid (fill_parent_dirs K e d) = ev_uid e" "ev_gid (fill_parent_dirs K e d) = ev_gid e"
  "ev_filename (fill_parent_dirs K e d) = ev_filename e" "ev_cmd (fill_parent_dirs K e d) = ev_cmd e"
  "ev_i_ino (fill_parent_dirs K e d) = ev_i_ino e"
  "ev_pid (fill_dir_chain K e d) = ev_pid e" "ev_flag (fill_dir_chain K e d) = ev_flag e"
  "ev_uid (fill_dir_chain K e d) = ev_uid e" "ev_gid (fill_dir_chain K e d) = ev_gid e"
  "ev_filename (fill_dir_chain K e d) = ev_filename e" "ev_cmd (fill_dir_chain K e d) = ev_cmd e"
  by (simp_all add: fill_parent_dirs_def fill_dir_chain_def walk_up_keeps store_dir_def Let_def)

lemma put_simps [simp]:
  "ev_pid (put_task t e) = tk_tgid t" "ev_flag (put_task t e) = ev_flag e" "ev_uid (put_task t e) = ev_uid e"
  "ev_gid (put_task t e) = ev_gid e" "ev_filename (put_task t e) = ev_filename e" "ev_cmd (put_task t e) = tk_comm t"
  "ev_pid (put_ids t e) = ev_pid e" "ev_flag (put_ids t e) = ev_flag e" "ev_uid (put_ids t e) = tk_uid t"
  "ev_gid (put_ids t e) = tk_gid t" "ev_filename (put_ids t e) = ev_filename e" "ev_cmd (put_ids t e) = ev_cmd e"
  "ev_pid (put_name s e) = ev_pid e" "ev_flag (put_name s e) = ev_flag e" "ev_uid (put_name s e) = ev_uid e"
  "ev_gid (put_name s e) = ev_gid e" "ev_filename (put_name s e) = to_buf MAX_FILENAME_LEN s"
  "ev_cmd (put_name s e) = ev_cmd e"
  by (simp_all add: put_task_def put_ids_def put_name_def)

text \<open>What every event sent looks like.\<close>

definition sound_event :: "u32 \<Rightarrow> task \<Rightarrow> event \<Rightarrow> bool" where
  "sound_event self t e \<longleftrightarrow> event_wf e \<and> 0 \<le> ev_flag e \<and> ev_flag e \<le> 6 \<and> ev_pid e = tk_tgid t \<and>
     (self = 0 \<or> ev_pid e \<noteq> self)"

lemma emits_nothing: "emits P T T"
  by (simp add: emits_def)

text \<open>The pattern of every program: reserve a record, fill it, then submit or discard it.\<close>

definition sends :: "(event \<Rightarrow> event option) \<Rightarrow> bool \<Rightarrow> task \<Rightarrow> tracer \<Rightarrow> tracer" where
  "sends fill room t T =
     (case bpf_create_ringbuf room t T of
        (None, T1) \<Rightarrow> T1
      | (Some e, T1) \<Rightarrow> (case fill e of None \<Rightarrow> bpf_ringbuf_discard T1 | Some e1 \<Rightarrow> bpf_ringbuf_submit e1 T1))"

lemma sends_emits:
  assumes "\<And>e. tr_self T = 0 \<or> tk_tgid t \<noteq> tr_self T \<Longrightarrow> fill zero_event = Some e \<Longrightarrow> P e"
  shows "emits P T (sends fill room t T)"
proof (cases rule: create_cases [of room t T])
  case none
  then show ?thesis by (simp add: sends_def emits_nothing)
next
  case some
  then show ?thesis
    using assms by (cases "fill zero_event") (auto simp: sends_def submit_reserved_Suc emits_def)
qed

text \<open>What each program puts into its record; \<open>None\<close> when it gives the record back.\<close>

definition file_record :: "kernel \<Rightarrow> task \<Rightarrow> kfile option \<Rightarrow> event \<Rightarrow> event option" where
  "file_record K t file e =
     (case file of None \<Rightarrow> None
      | Some f \<Rightarrow>
          (case kf_inode f of None \<Rightarrow> None
           | Some (i_ino, mode) \<Rightarrow>
               (if \<not> is_regular mode \<or> kf_dentry f = 0 then None
                else Some (put_name (kn_name K (kf_dentry f)) (fill_parent_dirs K
                  ((put_task t (put_ids t (e\<lparr>ev_flag := flag_code SYS_copy_file_range\<rparr>)))\<lparr>ev_i_ino := i_ino\<rparr>)
                  (kf_dentry f))))))"

definition unlink_record :: "kernel \<Rightarrow> task \<Rightarrow> int \<Rightarrow> string \<Rightarrow> event \<Rightarrow> event" where
  "unlink_record K t dfd name e =
     (let e1 = put_name name (put_task t (e\<lparr>ev_flag := flag_code SYS_unlinkat\<rparr>)) in
      if hd (ev_filename e1) \<noteq> SLASH then fill_dir_chain K e1 (resolve_base_dentry t dfd) else e1)"

definition rename_record :: "task \<Rightarrow> syscall_flag \<Rightarrow> string \<Rightarrow> string \<Rightarrow> event \<Rightarrow> event" where
  "rename_record t flag old new e =
     (put_name new (put_task t (put_ids t (e\<lparr>ev_flag := flag_code flag\<rparr>))))
       \<lparr>ev_oldfilename := to_buf MAX_FILENAME_LEN old\<rparr>"

definition renameat2_record :: "kernel \<Rightarrow> task \<Rightarrow> u32 \<Rightarrow> string \<Rightarrow> string \<Rightarrow> event \<Rightarrow> event" where
  "renameat2_record K t newdfd old new e =
     (let e2 = (put_name new (put_task t (e\<lparr>ev_flag := flag_code SYS_renameat2\<rparr>)))
                 \<lparr>ev_oldfilename := to_buf MAX_FILENAME_LEN old\<rparr>
      in put_ids t (if newdfd = word_of_int AT_FDCWD
           then fill_parent_dirs K e2 (case tk_cwd t of None \<Rightarrow> 0 | Some d \<Rightarrow> d) else e2))"

fun hook_record :: "kernel \<Rightarrow> task \<Rightarrow> hook \<Rightarrow> event \<Rightarrow> event option" where
  "hook_record K t (Openat path) e = Some (put_name path (put_task t (e\<lparr>ev_flag := flag_code SYS_openat\<rparr>)))"
| "hook_record K t (Unlinkat dfd path) e = Some (unlink_record K t dfd path e)"
| "hook_record K t (Copy_file_range fd) e = file_record K t (tk_files t fd) e"
| "hook_record K t (Rename old new) e = Some (rename_record t SYS_rename old new e)"
| "hook_record K t (Renameat old new) e = Some (rename_record t SYS_renameat old new e)"
| "hook_record K t (Renameat2 dfd old new) e = Some (renameat2_record K t dfd old new e)"
| "hook_record K t (Trace_write file access) e = write_event K t e (Some file)"
| "hook_record K t (Write fd) e = write_event K t e (tk_files t fd)"
| "hook_record K t h e = None"

definition on_exec :: "hook \<Rightarrow> bool" where
  "on_exec h \<longleftrightarrow> h = Execve \<or> h = Process_exec"

text \<open>The programs that look at something before they reserve a record.\<close>

definition passes_by :: "task \<Rightarrow> hook \<Rightarrow> bool" where
  "passes_by t h \<longleftrightarrow> (\<exists>file access. h = Trace_write file access \<and> and access MAY_WRITE = 0) \<or>
     (\<exists>fd. h = Write fd \<and> and (tk_flags t) PF_KTHREAD \<noteq> 0)"

lemma run_hook_sends:
  "\<not> on_exec h \<Longrightarrow> run_hook K room t h T = (if passes_by t h then T else sends (hook_record K t h) room t T)"
  by (cases rule: create_cases [of room t T]; cases h)
    (simp_all add: on_exec_def passes_by_def sends_def enter_openat_def enter_unlinkat_def unlink_record_def
      copy_file_range_def create_file_event_def file_record_def rename_sys_def renameat_def handle_rename_def
      rename_record_def renameat2_def renameat2_record_def trace_write_def write_sys_def Let_def split: option.split)

text \<open>With room, and for a task that is not the tracer, a record that is filled is sent.\<close>

lemma run_hook_sent:
  assumes "\<not> on_exec h" and "\<not> passes_by t h" and "tk_tgid t \<noteq> tr_self T"
    and "hook_record K t h zero_event = Some e"
  shows "run_hook K True t h T = T\<lparr>tr_events := tr_events T @ [e]\<rparr>"
  unfolding run_hook_sends [OF assms(1)] using assms(2-)
  by (simp add: sends_def bpf_create_ringbuf_def submit_reserved_Suc)

lemma run_hook_exec:
  "on_exec h \<Longrightarrow> run_hook K room t h T = bpf_map_update_elem (tk_tgid t) (exec_entry t) T"
  by (auto simp: on_exec_def enter_execve_def sched_process_exec_def)

lemma hook_record_pid: "hook_record K t h zero_event = Some e \<Longrightarrow> ev_pid e = tk_tgid t"
  by (cases h) (auto simp: unlink_record_def rename_record_def renameat2_record_def file_record_def
      write_event_def Let_def split: option.splits if_splits prod.splits)

lemma hook_record_wf: "task_ok t \<Longrightarrow> hook_record K t h zero_event = Some e \<Longrightarrow> event_wf e"
  by (cases h) (auto simp: unlink_record_def rename_record_def renameat2_record_def file_record_def
      write_event_def Let_def keeps_wf split: option.splits if_splits prod.splits)

lemma hook_record_flag: "hook_record K t h zero_event = Some e \<Longrightarrow> 0 \<le> ev_flag e \<and> ev_flag e \<le> 6"
  by (cases h) (auto simp: unlink_record_def rename_record_def renameat2_record_def file_record_def
      write_event_def Let_def split: option.splits if_splits prod.splits)

lemma hook_emits:
  assumes "task_ok t" and "\<not> on_exec h"
  shows "emits (sound_event (tr_self T) t) T (run_hook K room t h T)"
  using assms unfolding run_hook_sends [OF assms(2)]
  by (auto simp: emits_nothing sound_event_def hook_record_pid hook_record_wf hook_record_flag
      intro!: sends_emits)

section \<open>The invariant\<close>

definition tracer_ok :: "u32 \<Rightarrow> tracer \<Rightarrow> bool" where
  "tracer_ok self T \<longleftrightarrow> tr_self T = self \<and> tr_reserved T = 0 \<and>
     (\<forall>e \<in> set (tr_events T). event_wf e \<and> 0 \<le> ev_flag e \<and> ev_flag e \<le> 6 \<and> (self = 0 \<or> ev_pid e \<noteq> self)) \<and>
     om_wf (tr_exec T) \<and> length (tr_exec T) \<le> exec_map_entries"

lemma loaded_ok: "tracer_ok self (loaded self)"
  by (simp add: tracer_ok_def loaded_def)

lemma length_om: "om_wf m \<Longrightarrow> length m = card (dom (map_of m))"
  using distinct_card [OF om_wf_distinct [of m]] by (simp add: dom_map_of_conv_image_fst)

lemma length_om_put: "om_wf m \<Longrightarrow> length (om_put k v m) = (if map_of m k = None then Suc (length m) else length m)"
  by (auto simp: length_om insert_absorb finite_dom_map_of dom_def [symmetric] card_insert_disjoint domIff)

lemma map_update_ok: "tracer_ok self T \<Longrightarrow> tracer_ok self (bpf_map_update_elem k v T)"
  by (simp add: tracer_ok_def bpf_map_update_elem_def length_om_put)

lemma emits_ok: "emits (sound_event self t) T T' \<Longrightarrow> tracer_ok self T \<Longrightarrow> tracer_ok self T'"
  by (auto simp: emits_def tracer_ok_def sound_event_def)

lemma step_ok: "bpf_step K T T' \<Longrightarrow> tracer_ok self T \<Longrightarrow> tracer_ok self T'"
proof (erule bpf_stepE)
  fix t room h
  assume ok: "tracer_ok self T" and "task_ok t" and T': "T' = run_hook K room t h T"
  have self: "tr_self T = self" using ok by (simp add: tracer_ok_def)
  show "tracer_ok self T'"
  proof (cases "on_exec h")
    case True
    then show ?thesis using ok by (simp add: T' run_hook_exec map_update_ok)
  next
    case False
    show ?thesis
      using hook_emits [OF \<open>task_ok t\<close> False, of T K room] ok unfolding T' self by (rule emits_ok)
  qed
qed

lemma runs_ok: "bpf_runs K T T' \<Longrightarrow> tracer_ok self T \<Longrightarrow> tracer_ok self T'"
  by (induction rule: rtranclp_induct) (blast dest: step_ok)+

text \<open>What a program does to the process table.\<close>

lemma emits_exec: "emits P T T' \<Longrightarrow> tr_exec T' = tr_exec T"
  by (auto simp: emits_def)

lemma step_exec:
  assumes "bpf_step K T T'"
  shows "tr_exec T' = tr_exec T \<or>
    (\<exists>k v. tr_exec T' = om_put k v (tr_exec T) \<and>
      (k \<in> dom (map_of (tr_exec T)) \<or> length (tr_exec T) < exec_map_entries))"
  using assms
proof (rule bpf_stepE)
  fix t room h
  assume "task_ok t" and T': "T' = run_hook K room t h T"
  then show ?thesis
    using hook_emits [of t h T K room]
    by (cases "on_exec h")
      (auto simp: run_hook_exec bpf_map_update_elem_def domIff dest: emits_exec split: if_splits)
qed

definition grows :: "tracer \<Rightarrow> tracer \<Rightarrow> bool" where
  "grows T T' \<longleftrightarrow> om_wf (tr_exec T') \<and> dom (map_of (tr_exec T)) \<subseteq> dom (map_of (tr_exec T')) \<and>
     (exec_map_entries \<le> length (tr_exec T) \<longrightarrow>
       dom (map_of (tr_exec T')) = dom (map_of (tr_exec T)) \<and> exec_map_entries \<le> length (tr_exec T'))"

lemma grows_trans: "grows T U \<Longrightarrow> grows U V \<Longrightarrow> grows T V"
  unfolding grows_def by blast

lemma step_grows: "bpf_step K T T' \<Longrightarrow> om_wf (tr_exec T) \<Longrightarrow> grows T T'"
  using step_exec [of K T T'] by (auto simp: grows_def length_om_put domIff split: if_splits)

lemma runs_grows: "bpf_runs K T T' \<Longrightarrow> om_wf (tr_exec T) \<Longrightarrow> grows T T'"
proof (induction rule: rtranclp_induct)
  case base
  then show ?case by (simp add: grows_def)
next
  case (step U V)
  then have "grows T U" by simp
  moreover have "grows U V"
    by (rule step_grows [OF step.hyps(2)]) (use \<open>grows T U\<close> in \<open>simp add: grows_def\<close>)
  ultimately show ?case by (rule grows_trans)
qed

section \<open>Properties\<close>

text \<open>A sample task that is not the tracer, and a small directory tree: root 1, \<open>/etc\<close> 2, \<open>/etc/hosts\<close> 3.\<close>

definition sample_tree :: kernel where
  "sample_tree = \<lparr>kn_parent = (\<lambda>d. if d = 3 then 2 else if d = 2 then 1 else if d = 1 then 1 else 0),
     kn_name = (\<lambda>d. if d = 3 then ''hosts'' else if d = 2 then ''etc'' else if d = 1 then ''/'' else [])\<rparr>"

definition sample_file :: kfile where
  "sample_file = \<lparr>kf_inode = Some (77, S_IFREG), kf_dentry = 3\<rparr>"

definition sample_task :: task where
  "sample_task = \<lparr>tk_tgid = 100, tk_comm = to_buf TASK_COMM_LEN ''bash'', tk_flags = 0, tk_uid = 1000,
     tk_gid = 1000, tk_ptgid = 1, tk_ppid = 1, tk_pcomm = zero_buf TASK_COMM_LEN, tk_cwd = Some 2,
     tk_files = (\<lambda>fd. if fd = 1 then Some sample_file else None)\<rparr>"

lemma sample_task_ok: "task_ok sample_task"
  by (simp add: task_ok_def sample_task_def to_buf_terminated size_consts)

text \<open>C7: Whatever programs run, after each of them no record of the ring buffer is left reserved, every
  record sent is well formed (its strings end inside their buffers, its flag indexes \<open>nr_map\<close>) and was
  not caused by the tracer itself, and the process table keeps its order and its bound.\<close>

theorem tracer_invariant:
  assumes "bpf_runs K (loaded self) T"
  shows "tr_reserved T = 0 \<and>
    (\<forall>e \<in> set (tr_events T). event_wf e \<and> (\<exists>s. nr_name (ev_flag e) = Inr s) \<and> (self = 0 \<or> ev_pid e \<noteq> self)) \<and>
    om_wf (tr_exec T) \<and> length (tr_exec T) \<le> exec_map_entries"
  using runs_ok [OF assms loaded_ok] by (auto simp: tracer_ok_def nr_name_def nr_map_def)

theorem tracer_invariant_witness:
  "tr_reserved (run_hook sample_tree True sample_task (Write 1) (loaded 7)) = 0"
  using tracer_invariant [of sample_tree 7 "run_hook sample_tree True sample_task (Write 1) (loaded 7)"]
    run_program [OF sample_task_ok] by blast

text \<open>What the tracer itself does is never sent to it: with its own process id set, no program but
  the two on process execution changes anything when the tracer's threads run it, so handling an event
  cannot cause another one.\<close>

lemma own_activity_is_invisible:
  assumes "tr_self T = tk_tgid t" and "tk_tgid t \<noteq> 0" and "h \<noteq> Execve" and "h \<noteq> Process_exec"
  shows "run_hook K room t h T = T"
proof -
  have "\<not> on_exec h" using assms by (simp add: on_exec_def)
  then show ?thesis using assms by (simp add: run_hook_sends sends_def bpf_create_ringbuf_def)
qed

text \<open>C24: The process table only grows: no program removes a process from it, not even when the process
  ends, and once it holds its 4096 entries a process that is not in it is never recorded again.\<close>

theorem process_table_never_forgets:
  assumes "bpf_runs K (loaded self) T" and "bpf_runs K T T'"
  shows "dom (map_of (tr_exec T)) \<subseteq> dom (map_of (tr_exec T')) \<and>
    (length (tr_exec T) = 4096 \<longrightarrow> dom (map_of (tr_exec T')) = dom (map_of (tr_exec T)))"
proof -
  have "om_wf (tr_exec T)" using runs_ok [OF assms(1) loaded_ok] by (simp add: tracer_ok_def)
  then show ?thesis using runs_grows [OF assms(2)] by (simp add: grows_def exec_map_entries_def)
qed

theorem process_table_never_forgets_witness:
  "dom (map_of (tr_exec (run_hook sample_tree True sample_task Execve (loaded 7)))) \<subseteq>
   dom (map_of (tr_exec (run_hook sample_tree True sample_task (Write 1)
     (run_hook sample_tree True sample_task Execve (loaded 7)))))"
  using process_table_never_forgets [of sample_tree 7 "run_hook sample_tree True sample_task Execve (loaded 7)"]
    run_program [OF sample_task_ok] by blast

text \<open>C25: An event of \<open>unlinkat\<close> carries user and group 0 whoever removes the file, since the program
  does not fill them in, while the events of a rename carry the ids of the task.\<close>

theorem unlink_event_names_root:
  assumes "tk_tgid t \<noteq> tr_self T"
  shows "(\<exists>e. tr_events (run_hook K True t (Unlinkat dfd path) T) = tr_events T @ [e] \<and>
      ev_flag e = flag_code SYS_unlinkat \<and> ev_pid e = tk_tgid t \<and> ev_uid e = 0 \<and> ev_gid e = 0) \<and>
    (\<exists>e. tr_events (run_hook K True t (Rename old new) T) = tr_events T @ [e] \<and>
      ev_flag e = flag_code SYS_rename \<and> ev_pid e = tk_tgid t \<and> ev_uid e = tk_uid t \<and> ev_gid e = tk_gid t)"
  using run_hook_sent [of "Unlinkat dfd path" t T K] run_hook_sent [of "Rename old new" t T K] assms
  by (simp add: on_exec_def passes_by_def unlink_record_def rename_record_def Let_def)
    (simp add: zero_event_def)

theorem unlink_event_names_root_witness:
  "\<exists>e. tr_events (run_hook sample_tree True sample_task (Unlinkat AT_FDCWD ''hosts'') (loaded 7)) = [e] \<and>
    ev_uid e = 0 \<and> tk_uid sample_task = 1000"
  using unlink_event_names_root [of sample_task "loaded 7" sample_tree AT_FDCWD "''hosts''"]
  by (auto simp: loaded_def sample_task_def)

end
