(* ===== verification/Capture.thy ===== *)
theory Capture
  imports Kernel Paths
begin

text \<open>
  What the paths of the BPF side and of user space mean together: the directory names that
  \<open>fill_parent_dirs\<close> and \<open>fill_dir_chain\<close> of \<open>src/filetrace.bpf.c\<close> put into an event, and the path
  that \<open>get_full_path\<close> of \<open>src/post.cpp\<close> rebuilds from them. \<open>located K d cs\<close>: the dentry \<open>d\<close> is the
  file or directory reached from the root of its file system by the names \<open>cs\<close>. The programs follow
  \<open>d_parent\<close> only, which ends at that root; where the file system is mounted is in the model
  (\<open>mount\<close>, \<open>real_path\<close>) and not read by the programs.
\<close>

section \<open>Where a dentry is\<close>

inductive located :: "kernel \<Rightarrow> nat \<Rightarrow> string list \<Rightarrow> bool" for K where
  at_root: "d \<noteq> 0 \<Longrightarrow> kn_parent K d = d \<Longrightarrow> kn_name K d = [SLASH] \<Longrightarrow> located K d []"
| in_dir: "d \<noteq> 0 \<Longrightarrow> kn_parent K d \<noteq> d \<Longrightarrow> located K (kn_parent K d) cs \<Longrightarrow>
    located K d (cs @ [kn_name K d])"

inductive_cases located_rootE: "located K d []"
inductive_cases located_snocE: "located K d (cs @ [c])"

lemma located_not_null: "located K d cs \<Longrightarrow> d \<noteq> 0"
  by (cases rule: located.cases) auto

lemma located_in_dir: "located K d (cs @ [c]) \<Longrightarrow> kn_name K d = c \<and> kn_parent K d \<noteq> d \<and> located K (kn_parent K d) cs"
  by (erule located_snocE) auto

lemma located_root: "located K d [] \<Longrightarrow> kn_name K d = [SLASH] \<and> kn_parent K d = d"
  by (erule located_rootE) auto

text \<open>A dentry is at one place only.\<close>

lemma located_unique: "located K d cs \<Longrightarrow> located K d ds \<Longrightarrow> cs = ds"
proof (induction arbitrary: ds rule: located.induct)
  case (at_root d)
  from at_root.prems at_root.hyps(2) show ?case by (cases rule: located.cases) auto
next
  case (in_dir d cs)
  from in_dir.prems in_dir.hyps(2) in_dir.IH show ?case by (cases rule: located.cases) auto
qed

section \<open>The names a walk collects\<close>

fun up_names :: "kernel \<Rightarrow> nat \<Rightarrow> nat \<Rightarrow> string list" where
  "up_names K 0 d = []"
| "up_names K (Suc n) d =
     (if kn_parent K d = d then [] else kn_name K (kn_parent K d) # up_names K n (kn_parent K d))"

fun store_dirs :: "nat \<Rightarrow> string list \<Rightarrow> event \<Rightarrow> event" where
  "store_dirs i [] e = e"
| "store_dirs i (s # ss) e = store_dirs (Suc i) ss (store_dir i s e)"

lemma walk_up_eq: "walk_up K n i d e = store_dirs i (up_names K n d) e"
  by (induction K n i d e rule: walk_up.induct) (simp_all add: Let_def)

lemma up_names_located: "located K d cs \<Longrightarrow> up_names K n d = take n (tl (rev cs @ [[SLASH]]))"
proof (induction n arbitrary: d cs)
  case (Suc n)
  show ?case
  proof (cases cs rule: rev_cases)
    case Nil
    then show ?thesis using Suc.prems by (auto dest: located_root)
  next
    case (snoc ds c)
    then have 1: "kn_parent K d \<noteq> d" "located K (kn_parent K d) ds"
      using located_in_dir [of K d ds c] Suc.prems by auto
    have name: "kn_name K (kn_parent K d) = hd (rev ds @ [[SLASH]])"
      using 1(2) by (cases ds rule: rev_cases) (auto dest: located_in_dir located_root)
    show ?thesis
      using Suc.IH [OF 1(2)] 1(1) name snoc by (cases ds rule: rev_cases) (simp_all)
  qed
qed simp

definition no_dirs :: "event \<Rightarrow> bool" where
  "no_dirs e \<longleftrightarrow> ev_dir1 e = zero_buf MAX_DIRNAME_LEN \<and> ev_dir2 e = zero_buf MAX_DIRNAME_LEN \<and>
     ev_dir3 e = zero_buf MAX_DIRNAME_LEN \<and> ev_dir4 e = zero_buf MAX_DIRNAME_LEN"

definition short :: "nat \<Rightarrow> string \<Rightarrow> string" where
  "short n s = take (n - 1) (cstr s)"

lemma upto4: "length ss \<le> 4 \<Longrightarrow> ss = [] \<or> (\<exists>a. ss = [a]) \<or> (\<exists>a b. ss = [a, b]) \<or> (\<exists>a b c. ss = [a, b, c]) \<or>
    (\<exists>a b c d. ss = [a, b, c, d])"
  by (cases ss; cases "tl ss"; cases "tl (tl ss)"; cases "tl (tl (tl ss))"; cases "tl (tl (tl (tl ss)))") auto

text \<open>Up to four directories, nearest first, end up in the parts of the path, outermost first.\<close>

lemma parts_store_dirs:
  assumes "length ss \<le> MAX_DEPTH" and "no_dirs e"
  shows "event_parts (store_dirs 0 ss e) =
    replicate (MAX_DEPTH - length ss) [] @ rev (map (short MAX_DIRNAME_LEN) ss) @ [cstr (ev_filename e)]"
proof -
  have "cstr (zero_buf n) = []" for n by simp
  then show ?thesis
    using upto4 [of ss] assms
    by (auto simp: MAX_DEPTH_def event_parts_def store_dir_def no_dirs_def short_def cstr_to_buf
        MAX_DIRNAME_LEN_def numeral_eq_Suc)
qed

section \<open>The path user space rebuilds\<close>

definition proper :: "string \<Rightarrow> bool" where
  "proper s \<longleftrightarrow> clean s \<and> NUL \<notin> set s"

text \<open>
  The path the daemon sees of the file \<open>f\<close> in the directories \<open>ds\<close>: the four innermost directories,
  each cut to 15 characters, and the file name, cut to 63.
\<close>

definition seen_path :: "string list \<Rightarrow> string \<Rightarrow> string" where
  "seen_path ds f = SLASH # join_with SLASH
     (map (short MAX_DIRNAME_LEN) (drop (length ds - MAX_DEPTH) ds) @ [short MAX_FILENAME_LEN f])"

lemma cstr_proper: "proper s \<Longrightarrow> cstr s = s"
  by (auto simp: proper_def cstr_def intro: takeWhile_all)

lemma short_clean: "proper s \<Longrightarrow> 1 < n \<Longrightarrow> clean (short n s)"
  by (cases s) (auto simp: short_def cstr_proper proper_def clean_def dest: in_set_takeD)

lemma short_slash: "1 < n \<Longrightarrow> short n [SLASH] = [SLASH]"
  by (simp add: short_def cstr_def)

lemma short_fits: "proper s \<Longrightarrow> length s < n \<Longrightarrow> short n s = s"
  by (simp add: short_def cstr_proper)

lemma seen_parts:
  assumes "\<forall>c \<in> set ds. proper c"
  shows "filter kept (replicate k [] @ rev (map (short MAX_DIRNAME_LEN) (take MAX_DEPTH (rev ds @ [[SLASH]])))) =
    map (short MAX_DIRNAME_LEN) (drop (length ds - MAX_DEPTH) ds)"
proof -
  let ?sh = "short MAX_DIRNAME_LEN"
  have "rev (map ?sh (take MAX_DEPTH (rev ds @ [[SLASH]]))) =
      rev (map ?sh (take (MAX_DEPTH - length ds) [[SLASH]])) @ map ?sh (drop (length ds - MAX_DEPTH) ds)"
    by (simp add: rev_map rev_take)
  moreover have "filter kept (rev (map ?sh (take (MAX_DEPTH - length ds) [[SLASH]]))) = []"
    by (cases "MAX_DEPTH - length ds") (simp_all add: short_slash MAX_DIRNAME_LEN_def kept_def)
  moreover have "filter kept (map ?sh (drop (length ds - MAX_DEPTH) ds)) = map ?sh (drop (length ds - MAX_DEPTH) ds)"
    using assms by (intro filter_True) (auto simp: MAX_DIRNAME_LEN_def dest!: in_set_dropD intro!: clean_kept short_clean)
  moreover have "filter kept (replicate k []) = []" by (simp add: kept_def)
  ultimately show ?thesis by (simp only: filter_append append_Nil)
qed

lemma seen_path_eq:
  assumes "\<forall>c \<in> set ds. proper c" and "proper f"
    and "event_parts e = replicate k [] @ rev (map (short MAX_DIRNAME_LEN) (take MAX_DEPTH (rev ds @ [[SLASH]]))) @
      [short MAX_FILENAME_LEN f]"
  shows "fst (get_full_path e) = seen_path ds f"
proof -
  let ?ps = "map (short MAX_DIRNAME_LEN) (drop (length ds - MAX_DEPTH) ds) @ [short MAX_FILENAME_LEN f]"
  have f: "clean (short MAX_FILENAME_LEN f)" using assms(2) by (simp add: short_clean MAX_FILENAME_LEN_def)
  have "filter kept (event_parts e) = ?ps"
    using seen_parts [OF assms(1), of k] clean_kept [OF f]
    by (simp only: assms(3) filter_append append_assoc [symmetric]) simp
  moreover have "\<forall>p \<in> set ?ps. clean p"
    using assms(1) f by (auto simp: MAX_DIRNAME_LEN_def dest!: in_set_dropD intro!: short_clean)
  ultimately show ?thesis
    using path_of_clean(1) [of ?ps] by (simp add: post_path.rebuild_path path_of_parts_def seen_path_def)
qed

lemma parts_of_name:
  assumes "event_parts e = ps @ [x]"
  shows "event_parts (put_name s e) = ps @ [short MAX_FILENAME_LEN s]"
  using assms by (simp add: event_parts_def put_name_def cstr_to_buf short_def MAX_FILENAME_LEN_def)

text \<open>A file dentry, after \<open>fill_parent_dirs\<close>; a base directory, after \<open>fill_dir_chain\<close>.\<close>

lemma fill_parent_path:
  assumes "located K d (ds @ [f])" and "\<forall>c \<in> set ds. proper c" and "proper g" and "no_dirs e"
  shows "fst (get_full_path (put_name g (fill_parent_dirs K e d))) = seen_path ds g"
proof (rule seen_path_eq [OF assms(2,3)])
  let ?ss = "take MAX_DEPTH (rev ds @ [[SLASH]])"
  have "fill_parent_dirs K e d = store_dirs 0 ?ss e"
    by (simp add: fill_parent_dirs_def walk_up_eq up_names_located [OF assms(1)])
  then show "event_parts (put_name g (fill_parent_dirs K e d)) =
      replicate (MAX_DEPTH - length ?ss) [] @ rev (map (short MAX_DIRNAME_LEN) ?ss) @ [short MAX_FILENAME_LEN g]"
    using parts_store_dirs [of ?ss e] assms(4) parts_of_name by simp
qed

lemma fill_chain_path:
  assumes "located K d ds" and "\<forall>c \<in> set ds. proper c" and "proper g" and "no_dirs e"
    and "ev_filename e = to_buf MAX_FILENAME_LEN g"
  shows "fst (get_full_path (fill_dir_chain K e d)) = seen_path ds g"
proof (rule seen_path_eq [OF assms(2,3)])
  let ?ss = "take MAX_DEPTH (rev ds @ [[SLASH]])"
  have "kn_name K d = hd (rev ds @ [[SLASH]])"
    using assms(1) by (cases ds rule: rev_cases) (auto dest: located_in_dir located_root)
  then have "kn_name K d # up_names K (MAX_DEPTH - 1) d = ?ss"
    using up_names_located [OF assms(1), of "MAX_DEPTH - 1"]
    by (cases "rev ds @ [[SLASH]]") (simp_all add: MAX_DEPTH_def numeral_eq_Suc)
  then have "fill_dir_chain K e d = store_dirs 0 ?ss e"
    using located_not_null [OF assms(1)] by (metis fill_dir_chain_def store_dirs.simps(2) walk_up_eq One_nat_def)
  then show "event_parts (fill_dir_chain K e d) =
      replicate (MAX_DEPTH - length ?ss) [] @ rev (map (short MAX_DIRNAME_LEN) ?ss) @ [short MAX_FILENAME_LEN g]"
    using parts_store_dirs [of ?ss e] assms(4,5) by (simp add: cstr_to_buf short_def MAX_FILENAME_LEN_def)
qed

text \<open>The absolute path of the names \<open>ds\<close> and \<open>f\<close>, and when the path seen is that one.\<close>

definition abs_path :: "string list \<Rightarrow> string \<Rightarrow> string" where
  "abs_path ds f = SLASH # join_with SLASH (ds @ [f])"

definition fits_event :: "string list \<Rightarrow> string \<Rightarrow> bool" where
  "fits_event ds f \<longleftrightarrow> length ds \<le> MAX_DEPTH \<and> (\<forall>c \<in> set ds. length c < MAX_DIRNAME_LEN) \<and> length f < MAX_FILENAME_LEN"

lemma join_clean_inject:
  assumes "\<forall>p \<in> set ps. clean p" and "\<forall>q \<in> set qs. clean q" and "ps \<noteq> []" and "qs \<noteq> []"
  shows "join_with SLASH ps = join_with SLASH qs \<longleftrightarrow> ps = qs"
proof -
  have "split_at SLASH (join_with SLASH ps) = ps" and "split_at SLASH (join_with SLASH qs) = qs"
    using assms by (simp_all add: split_at_join clean_def)
  then show ?thesis by metis
qed

lemma short_eq_iff: "proper s \<Longrightarrow> 0 < n \<Longrightarrow> short n s = s \<longleftrightarrow> length s < n"
  by (auto simp: short_def cstr_proper)

lemma seen_path_abs_iff:
  assumes "\<forall>c \<in> set ds. proper c" and "proper f"
  shows "seen_path ds f = abs_path ds f \<longleftrightarrow> fits_event ds f"
proof -
  let ?ps = "map (short MAX_DIRNAME_LEN) (drop (length ds - MAX_DEPTH) ds) @ [short MAX_FILENAME_LEN f]"
  have A: "\<forall>p \<in> set ?ps. clean p"
    using assms by (auto simp: MAX_DIRNAME_LEN_def MAX_FILENAME_LEN_def dest!: in_set_dropD intro!: short_clean)
  have B: "\<forall>p \<in> set (ds @ [f]). clean p" using assms by (auto simp: proper_def)
  have "seen_path ds f = abs_path ds f \<longleftrightarrow> ?ps = ds @ [f]"
    using join_clean_inject [OF A B] by (simp only: seen_path_def abs_path_def list.inject) simp
  also have "\<dots> \<longleftrightarrow> fits_event ds f"
  proof
    assume eq: "?ps = ds @ [f]"
    have "length ds \<le> MAX_DEPTH" using arg_cong [OF eq, of length] by (simp add: MAX_DEPTH_def)
    moreover from this eq have "map (short MAX_DIRNAME_LEN) ds = ds" by simp
    then have "\<forall>c \<in> set ds. short MAX_DIRNAME_LEN c = c" by (metis map_eq_conv map_ident)
    ultimately show "fits_event ds f"
      using eq assms by (auto simp: fits_event_def short_eq_iff MAX_DIRNAME_LEN_def MAX_FILENAME_LEN_def)
  next
    assume "fits_event ds f"
    then show "?ps = ds @ [f]"
      using assms by (simp add: fits_event_def short_fits map_idI)
  qed
  finally show ?thesis .
qed

section \<open>Mounts\<close>

text \<open>
  A mount of a whole file system: the dentry of its root, and the names that lead to the place it is
  mounted at; none for the root file system. The real path of a file goes through that place.
\<close>

record mount =
  mt_root :: nat
  mt_point :: "string list"

definition mount_ok :: "kernel \<Rightarrow> mount \<Rightarrow> bool" where
  "mount_ok K M \<longleftrightarrow> located K (mt_root M) [] \<and> (\<forall>c \<in> set (mt_point M). proper c)"

inductive below :: "kernel \<Rightarrow> nat \<Rightarrow> nat \<Rightarrow> string list \<Rightarrow> bool" for K r where
  top: "below K r r []"
| inside: "d \<noteq> 0 \<Longrightarrow> kn_parent K d \<noteq> d \<Longrightarrow> below K r (kn_parent K d) cs \<Longrightarrow> below K r d (cs @ [kn_name K d])"

lemma below_located: "below K r d cs \<Longrightarrow> located K r [] \<Longrightarrow> located K d cs"
  by (induction rule: below.induct) (auto intro: in_dir)

definition real_path :: "mount \<Rightarrow> string list \<Rightarrow> string \<Rightarrow> string" where
  "real_path M ds f = abs_path (mt_point M @ ds) f"

lemma real_path_root: "mt_point M = [] \<Longrightarrow> real_path M = abs_path"
  by (intro ext) (simp add: real_path_def)

text \<open>The path of the event has as many parts as the file has names in its file system, or fewer.\<close>

lemma seen_path_real_iff:
  assumes "mount_ok K M" and "\<forall>c \<in> set ds. proper c" and "proper f"
  shows "seen_path ds f = real_path M ds f \<longleftrightarrow>
    mt_point M = [] \<and> length ds \<le> 4 \<and> (\<forall>c \<in> set ds. length c < 16) \<and> length f < 64"
proof (cases "mt_point M = []")
  case True
  then show ?thesis
    using seen_path_abs_iff [OF assms(2,3)] by (simp add: real_path_root fits_event_def size_consts)
next
  case False
  let ?ps = "map (short MAX_DIRNAME_LEN) (drop (length ds - MAX_DEPTH) ds) @ [short MAX_FILENAME_LEN f]"
  have A: "\<forall>p \<in> set ?ps. clean p"
    using assms by (auto simp: MAX_DIRNAME_LEN_def MAX_FILENAME_LEN_def dest!: in_set_dropD intro!: short_clean)
  have B: "\<forall>p \<in> set (mt_point M @ ds @ [f]). clean p" using assms by (auto simp: mount_ok_def proper_def)
  have "length ?ps \<noteq> length (mt_point M @ ds @ [f])" using False by (cases "mt_point M") auto
  then have "?ps \<noteq> mt_point M @ ds @ [f]" by metis
  then have "seen_path ds f \<noteq> real_path M ds f"
    using join_clean_inject [OF A B] by (simp add: seen_path_def real_path_def abs_path_def)
  with False show ?thesis by simp
qed

section \<open>Modifications of a file\<close>

text \<open>The programs that report a change of an open file.\<close>

definition modifies :: "task \<Rightarrow> hook \<Rightarrow> kfile \<Rightarrow> bool" where
  "modifies t h file \<longleftrightarrow>
     (\<exists>fd. h = Write fd \<and> tk_files t fd = Some file \<and> and (tk_flags t) PF_KTHREAD = 0) \<or>
     (\<exists>fd. h = Copy_file_range fd \<and> tk_files t fd = Some file) \<or>
     (\<exists>access. h = Trace_write file access \<and> and access MAY_WRITE \<noteq> 0)"

definition regular_at :: "kernel \<Rightarrow> kfile \<Rightarrow> string list \<Rightarrow> string \<Rightarrow> bool" where
  "regular_at K file ds f \<longleftrightarrow> (\<exists>i_ino mode. kf_inode file = Some (i_ino, mode) \<and> is_regular mode) \<and>
     located K (kf_dentry file) (ds @ [f]) \<and> (\<forall>c \<in> set ds. proper c) \<and> proper f"

definition regular_in :: "kernel \<Rightarrow> mount \<Rightarrow> kfile \<Rightarrow> string list \<Rightarrow> string \<Rightarrow> bool" where
  "regular_in K M file ds f \<longleftrightarrow> (\<exists>i_ino mode. kf_inode file = Some (i_ino, mode) \<and> is_regular mode) \<and>
     mount_ok K M \<and> below K (mt_root M) (kf_dentry file) (ds @ [f]) \<and> (\<forall>c \<in> set ds. proper c) \<and> proper f"

lemma regular_in_at: "regular_in K M file ds f \<Longrightarrow> regular_at K file ds f"
  by (auto simp: regular_in_def regular_at_def mount_ok_def intro: below_located)

lemma no_dirs_steps [simp]:
  "no_dirs zero_event" "no_dirs (put_task t e) = no_dirs e" "no_dirs (put_ids t e) = no_dirs e"
  "no_dirs (put_name s e) = no_dirs e" "no_dirs (e\<lparr>ev_flag := fl\<rparr>) = no_dirs e"
  "no_dirs (e\<lparr>ev_i_ino := ino\<rparr>) = no_dirs e" "no_dirs (e\<lparr>ev_oldfilename := ofn\<rparr>) = no_dirs e"
  by (simp_all add: no_dirs_def zero_event_def put_task_def put_ids_def put_name_def)

lemma modification_record:
  assumes "modifies t h file" and "regular_at K file ds f"
  shows "\<exists>e. hook_record K t h zero_event = Some e \<and> fst (get_full_path e) = seen_path ds f \<and>
    ev_flag e \<in> {flag_code SYS_write, flag_code SYS_copy_file_range} \<and> ev_pid e = tk_tgid t \<and>
    ev_uid e = tk_uid t \<and> ev_gid e = tk_gid t \<and> ev_cmd e = tk_comm t \<and>
    ev_filename e = to_buf MAX_FILENAME_LEN f"
proof -
  have loc: "located K (kf_dentry file) (ds @ [f])" and ps: "\<forall>c \<in> set ds. proper c" "proper f"
    using assms(2) by (simp_all add: regular_at_def)
  have name: "kn_name K (kf_dentry file) = f" "kf_dentry file \<noteq> 0"
    using located_in_dir [OF loc] located_not_null [OF loc] by simp_all
  note path = fill_parent_path [OF loc ps(1,2)]
  obtain i_ino mode where ino: "kf_inode file = Some (i_ino, mode)" "is_regular mode"
    using assms(2) by (auto simp: regular_at_def)
  consider fd where "h = Write fd" "tk_files t fd = Some file"
    | fd where "h = Copy_file_range fd" "tk_files t fd = Some file"
    | access where "h = Trace_write file access"
    using assms(1) by (auto simp: modifies_def)
  then show ?thesis
    by cases (simp_all add: write_event_def file_record_def Let_def path name ino)
qed

lemma modifies_reports: "modifies t h file \<Longrightarrow> \<not> on_exec h \<and> \<not> passes_by t h"
  by (auto simp: modifies_def on_exec_def passes_by_def)

lemma modification_sent:
  assumes "modifies t h file" and "regular_at K file ds f" and "tk_tgid t \<noteq> tr_self T"
  shows "\<exists>e. run_hook K True t h T = T\<lparr>tr_events := tr_events T @ [e]\<rparr> \<and> hook_record K t h zero_event = Some e \<and>
    fst (get_full_path e) = seen_path ds f"
  using run_hook_sent [of h t T K] modifies_reports [OF assms(1)] modification_record [OF assms(1,2)] assms(3)
  by blast

section \<open>Properties\<close>

lemma sample_proper: "proper ''etc''" "proper ''hosts''"
  by (simp_all add: proper_def clean_def)

lemma in_dirI:
  assumes "located K p cs" and "kn_parent K d = p" and "p \<noteq> d" and "d \<noteq> 0" and "es = cs @ [kn_name K d]"
  shows "located K d es"
  using assms in_dir [of d K cs] by simp

lemma sample_located: "located sample_tree 3 [''etc'', ''hosts'']" "located sample_tree 2 [''etc'']"
proof -
  have l1: "located sample_tree 1 []" by (rule at_root) (simp_all add: sample_tree_def)
  show l2: "located sample_tree 2 [''etc'']" by (rule in_dirI [OF l1]) (simp_all add: sample_tree_def)
  show "located sample_tree 3 [''etc'', ''hosts'']" by (rule in_dirI [OF l2]) (simp_all add: sample_tree_def)
qed

lemma sample_regular: "regular_at sample_tree sample_file [''etc''] ''hosts''"
  using sample_located(1) by (simp add: regular_at_def sample_file_def sample_proper is_regular_def S_IFREG_def S_IFMT_def)

text \<open>The sample tree as the root file system, and as a file system mounted at \<open>/mnt\<close>.\<close>

definition root_mount :: mount where
  "root_mount = \<lparr>mt_root = 1, mt_point = []\<rparr>"

definition mnt_mount :: mount where
  "mnt_mount = \<lparr>mt_root = 1, mt_point = [''mnt'']\<rparr>"

lemma insideI:
  assumes "below K r p cs" and "kn_parent K d = p" and "p \<noteq> d" and "d \<noteq> 0" and "es = cs @ [kn_name K d]"
  shows "below K r d es"
  using assms inside [of d K r cs] by simp

lemma sample_below: "below sample_tree 1 2 [''etc'']" "below sample_tree 1 3 [''etc'', ''hosts'']"
proof -
  show l2: "below sample_tree 1 2 [''etc'']" by (rule insideI [OF top]) (simp_all add: sample_tree_def)
  show "below sample_tree 1 3 [''etc'', ''hosts'']" by (rule insideI [OF l2]) (simp_all add: sample_tree_def)
qed

lemma sample_mounts: "mount_ok sample_tree root_mount" "mount_ok sample_tree mnt_mount"
  using at_root [of 1 sample_tree]
  by (simp_all add: mount_ok_def root_mount_def mnt_mount_def sample_tree_def proper_def clean_def)

lemma sample_in:
  "regular_in sample_tree root_mount sample_file [''etc''] ''hosts''"
  "regular_in sample_tree mnt_mount sample_file [''etc''] ''hosts''"
  using sample_below(2) sample_mounts
  by (simp_all add: regular_in_def sample_file_def sample_proper is_regular_def S_IFREG_def S_IFMT_def
      root_mount_def mnt_mount_def)

lemma sample_modifies: "modifies sample_task (Write 1) sample_file"
  by (simp add: modifies_def sample_task_def PF_KTHREAD_def)

text \<open>C3: A write or a copy to a regular file, by any task but the tracer and with room in the ring
  buffer, sends exactly one event, with the ids of the task; the path user space rebuilds from it is
  the real path of the file, seen through any mount of its file system, if and only if that mount is
  the root file system, the file is at most four directories deep, no directory name is longer than
  15 characters and the file name is not longer than 63: below a mount point the event never has the
  real path.\<close>

theorem modification_sends_the_path:
  assumes "modifies t h file" and "regular_in K M file ds f" and "tk_tgid t \<noteq> tr_self T"
  shows "\<exists>e. tr_events (run_hook K True t h T) = tr_events T @ [e] \<and> ev_pid e = tk_tgid t \<and> ev_uid e = tk_uid t \<and>
    (fst (get_full_path e) = real_path M ds f \<longleftrightarrow>
       mt_point M = [] \<and> length ds \<le> 4 \<and> (\<forall>c \<in> set ds. length c < 16) \<and> length f < 64)"
proof -
  note reg = regular_in_at [OF assms(2)]
  obtain e where run: "run_hook K True t h T = T\<lparr>tr_events := tr_events T @ [e]\<rparr>"
    and e: "hook_record K t h zero_event = Some e" "fst (get_full_path e) = seen_path ds f"
    using modification_sent [OF assms(1) reg assms(3)] by blast
  have "mount_ok K M" "\<forall>c \<in> set ds. proper c" "proper f" using assms(2) by (simp_all add: regular_in_def)
  from seen_path_real_iff [OF this] show ?thesis
    using modification_record [OF assms(1) reg] run e by auto
qed

theorem modification_sends_the_path_witness:
  "(\<exists>e. tr_events (run_hook sample_tree True sample_task (Write 1) (loaded 7)) = [e] \<and>
    fst (get_full_path e) = ''/etc/hosts'') \<and>
   (\<exists>e. tr_events (run_hook sample_tree True sample_task (Write 1) (loaded 7)) = [e] \<and>
    fst (get_full_path e) \<noteq> ''/mnt/etc/hosts'')"
  using modification_sends_the_path [OF sample_modifies sample_in(1), of "loaded 7"]
    modification_sends_the_path [OF sample_modifies sample_in(2), of "loaded 7"]
  by (auto simp: loaded_def sample_task_def real_path_def abs_path_def root_mount_def mnt_mount_def)

text \<open>The tree of \<open>/a/b/c/d/f\<close> and \<open>/x/a/b/c/d/f\<close>: the dentries 2 to 5 are the first four directories,
  12 is \<open>x\<close> and 13 to 16 the directories below it, 6 and 17 the files.\<close>

definition deep_tree :: kernel where
  "deep_tree = \<lparr>kn_parent = (\<lambda>d. if d = 12 then 1 else if d = 0 \<or> d = 1 then d else d - 1),
     kn_name = (\<lambda>d. if d = 0 then [] else if d = 1 then ''/'' else if d = 2 \<or> d = 13 then ''a''
       else if d = 3 \<or> d = 14 then ''b'' else if d = 4 \<or> d = 15 then ''c'' else if d = 5 \<or> d = 16 then ''d''
       else if d = 12 then ''x'' else ''f'')\<rparr>"

definition deep_file :: "nat \<Rightarrow> kfile" where
  "deep_file d = \<lparr>kf_inode = Some (77, S_IFREG), kf_dentry = d\<rparr>"

lemma deep_located:
  "located deep_tree 6 [''a'', ''b'', ''c'', ''d'', ''f'']"
  "located deep_tree 17 [''x'', ''a'', ''b'', ''c'', ''d'', ''f'']"
proof -
  have l1: "located deep_tree 1 []" by (rule at_root) (simp_all add: deep_tree_def)
  have l2: "located deep_tree 2 [''a'']" by (rule in_dirI [OF l1]) (simp_all add: deep_tree_def)
  have l3: "located deep_tree 3 [''a'', ''b'']" by (rule in_dirI [OF l2]) (simp_all add: deep_tree_def)
  have l4: "located deep_tree 4 [''a'', ''b'', ''c'']" by (rule in_dirI [OF l3]) (simp_all add: deep_tree_def)
  have l5: "located deep_tree 5 [''a'', ''b'', ''c'', ''d'']" by (rule in_dirI [OF l4]) (simp_all add: deep_tree_def)
  have l12: "located deep_tree 12 [''x'']" by (rule in_dirI [OF l1]) (simp_all add: deep_tree_def)
  have l13: "located deep_tree 13 [''x'', ''a'']" by (rule in_dirI [OF l12]) (simp_all add: deep_tree_def)
  have l14: "located deep_tree 14 [''x'', ''a'', ''b'']" by (rule in_dirI [OF l13]) (simp_all add: deep_tree_def)
  have l15: "located deep_tree 15 [''x'', ''a'', ''b'', ''c'']" by (rule in_dirI [OF l14]) (simp_all add: deep_tree_def)
  have l16: "located deep_tree 16 [''x'', ''a'', ''b'', ''c'', ''d'']" by (rule in_dirI [OF l15]) (simp_all add: deep_tree_def)
  show "located deep_tree 6 [''a'', ''b'', ''c'', ''d'', ''f'']"
    by (rule in_dirI [OF l5]) (simp_all add: deep_tree_def)
  show "located deep_tree 17 [''x'', ''a'', ''b'', ''c'', ''d'', ''f'']"
    by (rule in_dirI [OF l16]) (simp_all add: deep_tree_def)
qed

lemma deep_regular:
  "regular_at deep_tree (deep_file 6) ([] @ [''a'', ''b'', ''c'', ''d'']) ''f''"
  "regular_at deep_tree (deep_file 17) ([''x''] @ [''a'', ''b'', ''c'', ''d'']) ''f''"
  using deep_located
  by (simp_all add: regular_at_def deep_file_def is_regular_def S_IFREG_def S_IFMT_def proper_def clean_def)

text \<open>C21: Two files whose file names and four innermost directories agree send events with the same
  path, wherever they are: a change of a file deeper in the tree is taken for one of a watched file.\<close>

theorem deep_files_collide:
  assumes "regular_at K file1 (xs @ ds) f" and "regular_at K file2 (ys @ ds) f" and "length ds = 4"
    and "modifies t h1 file1" and "modifies t h2 file2" and "tk_tgid t \<noteq> tr_self T"
  shows "\<exists>e1 e2. tr_events (run_hook K True t h1 T) = tr_events T @ [e1] \<and>
    tr_events (run_hook K True t h2 T) = tr_events T @ [e2] \<and>
    fst (get_full_path e1) = fst (get_full_path e2)"
proof -
  have "seen_path (xs @ ds) f = seen_path (ys @ ds) f" using assms(3) by (simp add: seen_path_def MAX_DEPTH_def)
  then show ?thesis
    using modification_sent [OF assms(4,1,6)] modification_sent [OF assms(5,2,6)]
    by (metis tracer.select_convs(2) tracer.surjective tracer.update_convs(2))
qed

theorem deep_files_collide_witness:
  "\<exists>e1 e2. tr_events (run_hook deep_tree True sample_task (Trace_write (deep_file 6) 2) (loaded 7)) = [e1] \<and>
    tr_events (run_hook deep_tree True sample_task (Trace_write (deep_file 17) 2) (loaded 7)) = [e2] \<and>
    fst (get_full_path e1) = fst (get_full_path e2)"
  using deep_files_collide [OF deep_regular, of sample_task "Trace_write (deep_file 6) 2"
      "Trace_write (deep_file 17) 2" "loaded 7"]
  by (simp add: modifies_def MAY_WRITE_def loaded_def sample_task_def)

lemma relative_unlink_record:
  assumes "located K (resolve_base_dentry t dfd) ds" and "\<forall>c \<in> set ds. proper c" and "proper f"
  shows "fst (get_full_path (unlink_record K t dfd f zero_event)) = seen_path ds f"
proof -
  let ?e = "put_name f (put_task t (zero_event\<lparr>ev_flag := flag_code SYS_unlinkat\<rparr>))"
  have f: "f \<noteq> []" "SLASH \<notin> set f" "cstr f = f"
    using assms(3) cstr_proper [OF assms(3)] by (simp_all add: proper_def clean_def)
  moreover from f have "hd (to_buf MAX_FILENAME_LEN f) = hd f"
    by (cases f) (simp_all add: to_buf_def MAX_FILENAME_LEN_def Let_def)
  ultimately have "hd (ev_filename ?e) \<noteq> SLASH" by (metis hd_in_set put_simps(17))
  then have "unlink_record K t dfd f zero_event = fill_dir_chain K ?e (resolve_base_dentry t dfd)"
    by (simp add: unlink_record_def Let_def)
  then show ?thesis using fill_chain_path [OF assms, of ?e] by simp
qed

text \<open>The directory a name is relative to: the working directory, or the one the descriptor is open on.\<close>

definition base_dir :: "task \<Rightarrow> int \<Rightarrow> nat \<Rightarrow> bool" where
  "base_dir t dfd d \<longleftrightarrow> (if dfd = -100 then tk_cwd t = Some d
     else 0 \<le> dfd \<and> (\<exists>file. tk_files t dfd = Some file \<and> kf_dentry file = d))"

lemma base_dir_resolved: "base_dir t dfd d \<Longrightarrow> resolve_base_dentry t dfd = d"
  by (auto simp: base_dir_def resolve_base_dentry_def AT_FDCWD_def split: if_splits)

text \<open>C22: A name without a slash, other than \<open>.\<close> and \<open>..\<close>, given to \<open>unlinkat\<close> is resolved against
  its base directory, the working directory for \<open>AT_FDCWD\<close> and otherwise the directory the
  descriptor is open on: one event is sent, and the path rebuilt from it is the real path of the
  removed name, seen through any mount of the file system, if and only if that mount is the root
  file system, the base directory is at most four directories deep, no directory name is longer than
  15 characters and the name is not longer than 63.\<close>

theorem unlink_resolves_its_base:
  assumes "mount_ok K M" and "base_dir t dfd d" and "below K (mt_root M) d ds" and "\<forall>c \<in> set ds. proper c"
    and "proper f" and "f \<notin> {''.'', ''..''}" and "tk_tgid t \<noteq> tr_self T"
  shows "\<exists>e. tr_events (run_hook K True t (Unlinkat dfd f) T) = tr_events T @ [e] \<and>
    (fst (get_full_path e) = real_path M ds f \<longleftrightarrow>
       mt_point M = [] \<and> length ds \<le> 4 \<and> (\<forall>c \<in> set ds. length c < 16) \<and> length f < 64)"
proof -
  have "located K (resolve_base_dentry t dfd) ds"
    using assms(1,3) base_dir_resolved [OF assms(2)] by (auto simp: mount_ok_def intro: below_located)
  from relative_unlink_record [OF this assms(4,5)] show ?thesis
    using run_hook_sent [of "Unlinkat dfd f" t T K] assms(7) seen_path_real_iff [OF assms(1,4,5)]
    by (simp add: on_exec_def passes_by_def)
qed

theorem unlink_resolves_its_base_witness:
  "\<exists>e. tr_events (run_hook sample_tree True sample_task (Unlinkat (-100) ''hosts'') (loaded 7)) = [e] \<and>
    fst (get_full_path e) = ''/etc/hosts''"
proof -
  have base: "base_dir sample_task (-100) 2" by (simp add: base_dir_def sample_task_def)
  have "below sample_tree (mt_root root_mount) 2 [''etc'']" using sample_below(1) by (simp add: root_mount_def)
  from unlink_resolves_its_base [OF sample_mounts(1) base this, of "''hosts''" "loaded 7"] show ?thesis
    by (auto simp: sample_proper loaded_def sample_task_def real_path_def abs_path_def root_mount_def)
qed

end
