(* ===== verification/System.thy ===== *)
theory System
  imports Daemon Capture
begin

text \<open>
  The whole: the BPF programs, the ring buffer between them and the daemon, the daemon's callback, its
  HTTP server and its cleaning thread, as one step relation. A step is one BPF program, one event handled
  by the callback, one request or one round of the cleaning thread; that the callback may be taken as one
  step, although it releases its locks in between, is the subject of \<open>Interleave\<close>. An exception in the
  callback ends the daemon; the BPF side goes on. The process table the callback looks processes up in is
  the one the programs on process execution fill, as it stands when the callback runs.
\<close>

section \<open>States and steps\<close>

text \<open>
  \<open>sy_done\<close>: how many of the events sent the callback has handled. \<open>sy_event_answers\<close>: the requests to
  \<open>/monitor_file_status\<close> so far, with their answers; \<open>sy_config_answers\<close>: all others.
\<close>

record system =
  sy_tracer :: tracer
  sy_done :: nat
  sy_fs :: fs
  sy_obj :: postdata
  sy_alive :: bool
  sy_config_answers :: "(http_request \<times> response) list"
  sy_event_answers :: "(http_request \<times> response) list"

definition noted :: "http_request \<Rightarrow> response \<Rightarrow> system \<Rightarrow> system" where
  "noted r res S = (case r of
       Get_monitor_file_status param \<Rightarrow> S\<lparr>sy_event_answers := sy_event_answers S @ [(r, res)]\<rparr>
     | _ \<Rightarrow> S\<lparr>sy_config_answers := sy_config_answers S @ [(r, res)]\<rparr>)"

lemma noted_frame [simp]:
  "sy_tracer (noted r res S) = sy_tracer S" "sy_done (noted r res S) = sy_done S" "sy_fs (noted r res S) = sy_fs S"
  "sy_obj (noted r res S) = sy_obj S" "sy_alive (noted r res S) = sy_alive S"
  by (simp_all add: noted_def split: http_request.splits)

definition env_ok :: "env \<Rightarrow> bool" where
  "env_ok E \<longleftrightarrow> json_ok (en_json E) \<and> prom_ok (en_prom E) \<and> 0 \<le> en_now E \<and> en_now E < 2 ^ 63"

inductive sys_step :: "kernel \<Rightarrow> system \<Rightarrow> system \<Rightarrow> bool" for K where
  bpf_program: "task_ok t \<Longrightarrow> sys_step K S (S\<lparr>sy_tracer := run_hook K room t h (sy_tracer S)\<rparr>)"
| callback: "sy_alive S \<Longrightarrow> env_ok E \<Longrightarrow> sy_done S < length (tr_events (sy_tracer S)) \<Longrightarrow>
    handle_event E (Some (tr_events (sy_tracer S) ! sy_done S)) sizeof_event (Some (sy_obj S)) =
      Some (Inr r, Some q, l) \<Longrightarrow>
    en_map E = map_of (tr_exec (sy_tracer S)) \<Longrightarrow>
    sys_step K S (S\<lparr>sy_done := sy_done S + 1, sy_obj := q\<rparr>)"
| callback_throws: "sy_alive S \<Longrightarrow> env_ok E \<Longrightarrow> sy_done S < length (tr_events (sy_tracer S)) \<Longrightarrow>
    handle_event E (Some (tr_events (sy_tracer S) ! sy_done S)) sizeof_event (Some (sy_obj S)) =
      Some (Inl x, Some q, l) \<Longrightarrow>
    en_map E = map_of (tr_exec (sy_tracer S)) \<Longrightarrow>
    sys_step K S (S\<lparr>sy_done := sy_done S + 1, sy_obj := q, sy_alive := False\<rparr>)"
| request: "sy_alive S \<Longrightarrow> pd_publish (sy_obj S) \<Longrightarrow> serve J r (sy_fs S) (sy_obj S) = (res, f, q, l) \<Longrightarrow>
    sys_step K S ((noted r res S)\<lparr>sy_fs := f, sy_obj := q\<rparr>)"
| cleaning_round: "sy_alive S \<Longrightarrow> prom_ok P \<Longrightarrow> pd_exporter (sy_obj S) = Some X \<Longrightarrow>
    sweep P clock X = Inr (Y, l) \<Longrightarrow>
    sys_step K S (S\<lparr>sy_obj := (sy_obj S)\<lparr>pd_exporter := Some Y\<rparr>\<rparr>)"

inductive_cases sys_stepE: "sys_step K S S'"

text \<open>The system as \<open>main\<close> leaves it before its loop.\<close>

definition started :: "u32 \<Rightarrow> fs \<Rightarrow> postdata \<Rightarrow> system" where
  "started self f p = \<lparr>sy_tracer = loaded self, sy_done = 0, sy_fs = f, sy_obj = p, sy_alive = True,
     sy_config_answers = [], sy_event_answers = []\<rparr>"

abbreviation sys_reaches :: "kernel \<Rightarrow> system \<Rightarrow> system \<Rightarrow> bool" where
  "sys_reaches K \<equiv> (sys_step K)\<^sup>*\<^sup>*"

section \<open>What handling one event does to the object\<close>

definition pushed :: "postdata \<Rightarrow> event \<Rightarrow> json list" where
  "pushed p e = (if pd_cache_data p
     then drop (length (pd_event_queue p) + 1 - nat (pd_max_event_queue_size p)) (pd_event_queue p @ [event_obj e])
     else pd_event_queue p)"

lemma pushed_subset: "set (pushed p e) \<subseteq> insert (event_obj e) (set (pd_event_queue p))"
  by (auto simp: pushed_def dest: in_set_dropD)

lemma cache_event_keeps:
  assumes "object_ok p" and "known_call e" and "cache_event e p = Inr (q, l)"
  shows "object_ok q \<and> pd_event_queue q = pushed p e \<and> pd_exporter q = pd_exporter p \<and>
    pd_cache_data q = pd_cache_data p \<and> pd_max_event_queue_size q = pd_max_event_queue_size p"
proof (cases "pd_cache_data p")
  case True
  then have inv: "queue_inv p" using assms(1) by (simp add: object_ok_def)
  from queue.push [OF inv assms(2)] assms(3) have q: "queue_inv q"
    "pd_event_queue q = (if length (pd_event_queue p) = nat (pd_max_event_queue_size p)
      then tl (pd_event_queue p) else pd_event_queue p) @ [event_obj e]"
    by (auto simp: push_event_def)
  have "pd_event_queue q = pushed p e"
    using q(2) inv True by (cases "pd_event_queue p") (auto simp: pushed_def queue_inv_def)
  moreover have "pd_cache_data q = pd_cache_data p \<and> pd_max_event_queue_size q = pd_max_event_queue_size p"
    using assms(3) by (auto simp: cache_event_def Let_def split: if_splits sum.splits)
  ultimately show ?thesis
    using assms(1) cache_event_frame [OF assms(3)] q(1) by (auto simp: object_ok_def)
next
  case False
  then show ?thesis using assms by (auto simp: cache_event_def pushed_def)
qed

text \<open>The counter \<open>file_access_total\<close>.\<close>

definition counted :: "postdata \<Rightarrow> nat option" where
  "counted p = (case pd_exporter p of None \<Rightarrow> None | Some X \<Rightarrow> ex_counter X)"

lemma send_exporter:
  "send E e p = Some (Inr r, q, l) \<Longrightarrow>
   \<exists>X Y l1. pd_exporter p = Some X \<and> set_metrics (en_prom E) (en_now E) e X = Inr (Y, l1) \<and>
     q = p\<lparr>pd_exporter := Some Y\<rparr>"
  by (auto simp: send_def Let_def split: option.splits sum.splits prod.splits if_splits)

lemma send_keeps:
  assumes "object_ok p" and "env_ok E" and "send E e p = Some (Inr r, q, l)"
  shows "object_ok q \<and> pd_event_queue q = pd_event_queue p \<and> counted q = map_option Suc (counted p)"
proof -
  obtain X Y l1 where X: "pd_exporter p = Some X" and m: "set_metrics (en_prom E) (en_now E) e X = Inr (Y, l1)"
    and q: "q = p\<lparr>pd_exporter := Some Y\<rparr>"
    using send_exporter [OF assms(3)] by blast
  have "ex_inv X" using assms(1) X by (auto simp: object_ok_def)
  then show ?thesis
    using set_metrics_spec(1,5) [OF _ _ m] assms(1,2) X
    by (simp add: q object_ok_def queue_inv_def counted_def env_ok_def)
qed

definition counts :: "postdata \<Rightarrow> event \<Rightarrow> bool" where
  "counts p e \<longleftrightarrow> reportable p e \<and> \<not> pd_verbose p"

lemma process_event_keeps:
  assumes "object_ok p" and "env_ok E" and "event_wf e" and "process_event E e p = Some (Inr r, q, l)"
  shows "object_ok q \<and> pd_event_queue q = (if counts p e then pushed p e else pd_event_queue p) \<and>
    counted q = (if counts p e then map_option Suc (counted p) else counted p)"
proof -
  obtain l1 where v: "is_valid_event e p = Inr (reportable p e, l1)"
    using is_valid_event_reportable [OF assms(3)] by blast
  show ?thesis
  proof (cases "counts p e")
    case False
    then have "q = p" using assms(4) v
      by (cases "reportable p e") (auto simp: counts_def process_event_def split: sum.splits)
    then show ?thesis using False assms(1) by auto
  next
    case True
    then obtain q1 l2 l3 where s: "send E e p = Some (Inr r, q1, l2)" and c: "cache_event e q1 = Inr (q, l3)"
      using assms(4) v by (auto simp: counts_def process_event_def split: sum.splits option.splits prod.splits)
    have k: "known_call e" using True reportable_known by (auto simp: counts_def)
    from send_keeps [OF assms(1,2) s] have s': "object_ok q1" "pd_event_queue q1 = pd_event_queue p"
      "counted q1 = map_option Suc (counted p)" by simp_all
    have "pushed q1 e = pushed p e" using s'(2) send_frame [OF s] by (simp add: pushed_def)
    with cache_event_keeps [OF s'(1) k c] s' True show ?thesis by (auto simp: counted_def)
  qed
qed

lemma callback_keeps:
  assumes "object_ok p" and "env_ok E" and "event_wf e"
    and "handle_event E (Some e) sizeof_event (Some p) = Some (Inr r, Some q, l)"
  shows "r = 0 \<and> object_ok q \<and> pd_event_queue q = (if counts p e then pushed p e else pd_event_queue p) \<and>
    counted q = (if counts p e then map_option Suc (counted p) else counted p)"
proof -
  obtain r' where "process_event E e p = Some (Inr r', q, l)" and "r = 0"
    using assms(4) by (auto simp: handle_event_def split: option.splits sum.splits)
  then show ?thesis using process_event_keeps [OF assms(1,2,3)] by blast
qed

section \<open>The invariant of the system\<close>

definition system_ok :: "u32 \<Rightarrow> system \<Rightarrow> bool" where
  "system_ok self S \<longleftrightarrow> tracer_ok self (sy_tracer S) \<and> sy_done S \<le> length (tr_events (sy_tracer S)) \<and>
     (sy_alive S \<longrightarrow> object_ok (sy_obj S) \<and> (\<exists>n \<le> sy_done S. counted (sy_obj S) = Some n) \<and>
       set (pd_event_queue (sy_obj S)) \<subseteq> event_obj ` set (take (sy_done S) (tr_events (sy_tracer S))))"

text \<open>A program only adds to the events sent.\<close>

lemma step_events: "bpf_step K T T' \<Longrightarrow> \<exists>es. tr_events T' = tr_events T @ es"
proof (erule bpf_stepE)
  fix t room h
  assume "task_ok t" and T': "T' = run_hook K room t h T"
  then show ?thesis
    using hook_emits [of t h T K room]
    by (cases "on_exec h") (auto simp: run_hook_exec bpf_map_update_elem_def emits_def)
qed

lemma sys_step_ok:
  assumes "sys_step K S S'" and "system_ok self S"
  shows "system_ok self S'"
  using assms(1)
proof (cases rule: sys_stepE [consumes 1])
  case (1 t room h)
  have step: "bpf_step K (sy_tracer S) (run_hook K room t h (sy_tracer S))" using 1(2) by (rule run_program)
  obtain es where "tr_events (run_hook K room t h (sy_tracer S)) = tr_events (sy_tracer S) @ es"
    using step_events [OF step] by blast
  then show ?thesis using step_ok [OF step] assms(2) by (simp add: system_ok_def 1(1))
next
  case (2 E r q l)
  let ?e = "tr_events (sy_tracer S) ! sy_done S"
  have "event_wf ?e" using assms(2) 2(4) by (auto simp: system_ok_def tracer_ok_def)
  moreover have ok: "object_ok (sy_obj S)" using assms(2) 2(2) by (simp add: system_ok_def)
  ultimately have k: "object_ok q"
    "pd_event_queue q = (if counts (sy_obj S) ?e then pushed (sy_obj S) ?e else pd_event_queue (sy_obj S))"
    "counted q = (if counts (sy_obj S) ?e then map_option Suc (counted (sy_obj S)) else counted (sy_obj S))"
    using callback_keeps [OF _ 2(3) _ 2(5)] by simp_all
  have sub: "set (pd_event_queue q) \<subseteq> insert (event_obj ?e) (set (pd_event_queue (sy_obj S)))"
    using pushed_subset [of "sy_obj S" ?e] by (auto simp: k(2))
  have "take (sy_done S + 1) (tr_events (sy_tracer S)) = take (sy_done S) (tr_events (sy_tracer S)) @ [?e]"
    using 2(4) by (simp add: take_Suc_conv_app_nth)
  then show ?thesis
    using assms(2) k(1,3) sub 2(2,4) by (auto simp: system_ok_def 2(1) split: if_splits)
next
  case (3 E x q l)
  then show ?thesis using assms(2) by (simp add: system_ok_def)
next
  case (4 J r res f q l)
  have "object_ok (sy_obj S)" using assms(2) 4(2) by (simp add: system_ok_def)
  note keeps = serve_keeps [OF this 4(4)]
  then have "set (pd_event_queue q) \<subseteq> set (pd_event_queue (sy_obj S))" by (auto dest: in_set_dropD)
  then show ?thesis
    using assms(2) 4(2) keeps(1,3) by (auto simp: system_ok_def 4(1) counted_def)
next
  case (5 P X clock Y l)
  have "ex_inv X" using assms(2) 5(2,4) by (auto simp: system_ok_def object_ok_def)
  from sweep_spec [OF 5(3) this, of clock] 5(5) have "ex_inv Y" "ex_counter Y = ex_counter X" by auto
  then show ?thesis
    using assms(2) 5(2,4) by (auto simp: system_ok_def 5(1) object_ok_def queue_inv_def counted_def)
qed

lemma system_ok_reaches: "sys_reaches K S S' \<Longrightarrow> system_ok self S \<Longrightarrow> system_ok self S'"
  by (induction rule: rtranclp_induct) (blast dest: sys_step_ok)+

lemma started_ok: "object_ok p \<Longrightarrow> pd_event_queue p = [] \<Longrightarrow> counted p = Some 0 \<Longrightarrow> system_ok self (started self f p)"
  by (simp add: system_ok_def started_def loaded_ok)

section \<open>The monitor the system implements\<close>

text \<open>
  What an observer sees of the daemon: how many of the events sent it has handled, how many it counted,
  the documents it still has to hand out, and the answers it gave to requests for them.
\<close>

record monitor =
  mo_handled :: nat
  mo_counted :: nat
  mo_queue :: "json list"
  mo_answers :: "(http_request \<times> response) list"

definition monitor_of :: "system \<Rightarrow> monitor" where
  "monitor_of S = \<lparr>mo_handled = sy_done S, mo_counted = the (counted (sy_obj S)),
     mo_queue = pd_event_queue (sy_obj S), mo_answers = sy_event_answers S\<rparr>"

text \<open>The answer that hands out the documents \<open>js\<close>; 500 when they cannot be printed.\<close>

definition hands_out :: "json_lib \<Rightarrow> json list \<Rightarrow> response \<Rightarrow> bool" where
  "hands_out J js res \<longleftrightarrow>
     (if js = [] then rs_status res = 204
      else if \<forall>j \<in> set js. json_utf8 j
      then rs_status res = 200 \<and> j_dump J (Some 2) (status_document js) = Inr (rs_content res)
      else rs_status res = 500)"

text \<open>
  The monitor: \<open>es\<close> are the events sent so far, \<open>W\<close> the ones to report, \<open>size\<close> the bound of the queue. It
  handles the events one by one, in order; one to report is counted and its document queued, the oldest
  dropped when there are too many; a request takes as many documents off the queue, oldest first, as it
  asks for, and is answered with them.
\<close>

inductive mon_step :: "json_lib \<Rightarrow> event list \<Rightarrow> (event \<Rightarrow> bool) \<Rightarrow> int \<Rightarrow> monitor \<Rightarrow> monitor \<Rightarrow> bool"
  for J es W size where
  report: "mo_handled M < length es \<Longrightarrow> W (es ! mo_handled M) \<Longrightarrow>
    mon_step J es W size M (M\<lparr>mo_handled := mo_handled M + 1, mo_counted := mo_counted M + 1,
      mo_queue := drop (length (mo_queue M) + 1 - nat size) (mo_queue M @ [event_obj (es ! mo_handled M)])\<rparr>)"
| pass: "mo_handled M < length es \<Longrightarrow> \<not> W (es ! mo_handled M) \<Longrightarrow>
    mon_step J es W size M (M\<lparr>mo_handled := mo_handled M + 1\<rparr>)"
| hand_out: "n = asked_count size param \<Longrightarrow> hands_out J (take n (mo_queue M)) res \<Longrightarrow>
    mon_step J es W size M (M\<lparr>mo_queue := drop n (mo_queue M),
      mo_answers := mo_answers M @ [(Get_monitor_file_status param, res)]\<rparr>)"
| idle: "mon_step J es W size M M"

text \<open>
  A step of the system in which a request for events, if there is one, is answered with the library \<open>J\<close>;
  every step is one, for some library (\<open>sys_step_has_library\<close>).
\<close>

definition sys_step_with :: "json_lib \<Rightarrow> kernel \<Rightarrow> system \<Rightarrow> system \<Rightarrow> bool" where
  "sys_step_with J K S S' \<longleftrightarrow> sys_step K S S' \<and>
     (sy_event_answers S' = sy_event_answers S \<or>
      (\<exists>param res f q l. serve J (Get_monitor_file_status param) (sy_fs S) (sy_obj S) = (res, f, q, l) \<and>
         S' = (noted (Get_monitor_file_status param) res S)\<lparr>sy_fs := f, sy_obj := q\<rparr>))"

lemma sys_step_has_library: "sys_step K S S' \<Longrightarrow> \<exists>J. sys_step_with J K S S'"
proof -
  assume step: "sys_step K S S'"
  then have "sy_event_answers S' = sy_event_answers S \<or>
      (\<exists>J param res f q l. serve J (Get_monitor_file_status param) (sy_fs S) (sy_obj S) = (res, f, q, l) \<and>
         S' = (noted (Get_monitor_file_status param) res S)\<lparr>sy_fs := f, sy_obj := q\<rparr>)"
  proof (cases rule: sys_stepE [consumes 1])
    case (4 J r res f q l)
    show ?thesis
    proof (cases "\<exists>param. r = Get_monitor_file_status param")
      case True
      with 4(1,4) show ?thesis by blast
    next
      case False
      then show ?thesis using 4(1) by (cases r) (simp_all add: noted_def)
    qed
  qed simp_all
  with step show ?thesis by (auto simp: sys_step_with_def)
qed

lemma event_answer:
  assumes "json_ok J" and "object_ok p" and "pd_cache_data p"
    and "serve J (Get_monitor_file_status param) f p = (res, f', q, l)"
    and "n = asked_count (pd_max_event_queue_size p) param"
  shows "q = p\<lparr>pd_event_queue := drop n (pd_event_queue p)\<rparr> \<and> hands_out J (take n (pd_event_queue p)) res"
proof -
  have "queue_inv p" using assms(2,3) by (simp add: object_ok_def)
  note out = monitor_outcome [OF assms(1) this assms(5)]
  have pos: "0 < n" using assms(5) asked_count_pos by simp
  then have empty: "take n (pd_event_queue p) = [] \<longleftrightarrow> pd_event_queue p = []" by simp
  from out obtain r l' where
    m: "monitor_file_status J param p = (r, p\<lparr>pd_event_queue := drop n (pd_event_queue p)\<rparr>, l')" and
    r: "if pd_event_queue p = [] then \<exists>rs. r = Inr rs \<and> rs_status rs = 204
     else if \<forall>j \<in> set (take n (pd_event_queue p)). json_utf8 j
     then \<exists>rs. r = Inr rs \<and> rs_status rs = 200 \<and>
       j_dump J (Some 2) (status_document (take n (pd_event_queue p))) = Inr (rs_content rs)
     else r = Inl (Throw Json_type_error)" by blast
  from m assms(3,4) have "q = p\<lparr>pd_event_queue := drop n (pd_event_queue p)\<rparr>" "res = answered r"
    by (auto simp: serve_def registered_def route_def)
  then show ?thesis
    using r unfolding hands_out_def empty by (auto simp: answered_def answer_def split: if_splits)
qed

lemma other_request_queue:
  assumes "\<nexists>param. r = Get_monitor_file_status param" and "serve J r f p = (res, f', q, l)"
  shows "running_view q = running_view p"
  using assms by (cases r) (auto simp: serve_def registered_def route_def split: prod.splits dest!: update_request_view)

lemma simulation:
  assumes step: "sys_step_with J K S S'" and J: "json_ok J" and ok: "system_ok self S" and alive: "sy_alive S'"
    and caches: "pd_cache_data (sy_obj S)"
  shows "mon_step J (tr_events (sy_tracer S)) (counts (sy_obj S)) (pd_max_event_queue_size (sy_obj S))
    (monitor_of S) (monitor_of S')"
proof (cases "sy_event_answers S' = sy_event_answers S")
  case False
  then obtain param res f q l where
    serve: "serve J (Get_monitor_file_status param) (sy_fs S) (sy_obj S) = (res, f, q, l)" and
    S': "S' = (noted (Get_monitor_file_status param) res S)\<lparr>sy_fs := f, sy_obj := q\<rparr>"
    using step by (auto simp: sys_step_with_def)
  have "object_ok (sy_obj S)" using alive ok by (simp add: S' system_ok_def)
  from event_answer [OF J this caches serve refl] show ?thesis
    using hand_out [OF refl, of J "pd_max_event_queue_size (sy_obj S)" param "monitor_of S" res]
    by (simp add: S' monitor_of_def noted_def counted_def)
next
  case same: True
  have "sys_step K S S'" using step by (simp add: sys_step_with_def)
  then show ?thesis
  proof (cases rule: sys_stepE [consumes 1])
    case (1 t room h)
    then have "monitor_of S' = monitor_of S" by (simp add: monitor_of_def)
    then show ?thesis by (simp add: idle)
  next
    case (2 E r q l)
    let ?e = "tr_events (sy_tracer S) ! sy_done S"
    have "event_wf ?e" "object_ok (sy_obj S)" "counted (sy_obj S) \<noteq> None"
      using ok 2(2,4) by (auto simp: system_ok_def tracer_ok_def)
    then have keeps: "pd_event_queue q = (if counts (sy_obj S) ?e then pushed (sy_obj S) ?e else pd_event_queue (sy_obj S))"
      "counted q = (if counts (sy_obj S) ?e then map_option Suc (counted (sy_obj S)) else counted (sy_obj S))"
      "counted (sy_obj S) \<noteq> None"
      using callback_keeps [OF _ 2(3) _ 2(5)] by auto
    show ?thesis
    proof (cases "counts (sy_obj S) ?e")
      case True
      then show ?thesis
        using report [of "monitor_of S" "tr_events (sy_tracer S)" "counts (sy_obj S)" J
            "pd_max_event_queue_size (sy_obj S)"] keeps 2(4) caches
        by (auto simp: 2(1) monitor_of_def pushed_def)
    next
      case False
      then show ?thesis
        using pass [of "monitor_of S" "tr_events (sy_tracer S)" "counts (sy_obj S)" J
            "pd_max_event_queue_size (sy_obj S)"] keeps 2(4)
        by (simp add: 2(1) monitor_of_def)
    qed
  next
    case (3 E x q l)
    then show ?thesis using alive by simp
  next
    case (4 J' r res f q l)
    have "\<nexists>param. r = Get_monitor_file_status param" using same by (auto simp: 4(1) noted_def)
    from other_request_queue [OF this 4(4)] have "monitor_of S' = monitor_of S"
      using same by (simp add: 4(1) monitor_of_def counted_def running_view_def)
    then show ?thesis by (simp add: idle)
  next
    case (5 P X clock Y l)
    have "ex_inv X" using ok 5(2,4) by (auto simp: system_ok_def object_ok_def)
    from sweep_spec [OF 5(3) this, of clock] 5(5) have "ex_counter Y = ex_counter X" by auto
    then have "monitor_of S' = monitor_of S" using 5(4) by (simp add: 5(1) monitor_of_def counted_def)
    then show ?thesis by (simp add: idle)
  qed
qed

section \<open>Properties\<close>

lemma constructed_system_ok:
  assumes "json_ok J" and "new_postdata J exposer f memory skel cf verb path = (Inr p, l)"
  shows "system_ok self (started self f p)"
proof -
  obtain q fd where "p = completed fd q" using new_postdata_Inr [OF assms(2)] by metis
  then have "counted p = Some 0" by (simp add: counted_def completed_def)
  then show ?thesis using new_postdata_config [OF assms] started_ok by blast
qed

definition written :: system where
  "written = (started 7 (sample_fs 0) (completed 3 sample_object))
     \<lparr>sy_tracer := run_hook sample_tree True sample_task (Write 1) (loaded 7)\<rparr>"

lemma written_step: "sys_step sample_tree (started 7 (sample_fs 0) (completed 3 sample_object)) written"
  using bpf_program [OF sample_task_ok, of sample_tree "started 7 (sample_fs 0) (completed 3 sample_object)" True "Write 1"]
  by (simp add: written_def started_def)

text \<open>C2: From a successful start on, whatever the tasks, the clients and the threads do and in whatever
  order, as long as the daemon lives: no record of the ring buffer is left reserved, the queue respects
  its bound, every queued document describes an event that was sent by a program, handled, and not caused
  by the daemon itself, the counter never exceeds the events handled, and no gauge is exported that
  the cleaning thread would not find again.\<close>

theorem system_invariant:
  assumes "json_ok J" and "new_postdata J exposer f memory skel cf verb path = (Inr p, l)"
    and "sys_reaches K (started self f p) S" and "sy_alive S"
  shows "tr_reserved (sy_tracer S) = 0 \<and>
    (pd_cache_data (sy_obj S) \<longrightarrow>
       int (length (pd_event_queue (sy_obj S))) \<le> pd_max_event_queue_size (sy_obj S)) \<and>
    (\<forall>j \<in> set (pd_event_queue (sy_obj S)). \<exists>e \<in> set (take (sy_done S) (tr_events (sy_tracer S))).
       j = event_obj e \<and> (self = 0 \<or> ev_pid e \<noteq> self)) \<and>
    (\<exists>n \<le> sy_done S. counted (sy_obj S) = Some n) \<and>
    (\<exists>X. pd_exporter (sy_obj S) = Some X \<and>
       (\<forall>g. map_of (ex_series X) g \<noteq> None \<longrightarrow> (\<exists>k. map_of (ex_cache X) k = Some g)))"
proof -
  from system_ok_reaches [OF assms(3) constructed_system_ok [OF assms(1,2)]] have ok: "system_ok self S" .
  then have obj: "object_ok (sy_obj S)" using assms(4) by (simp add: system_ok_def)
  then obtain X where "pd_exporter (sy_obj S) = Some X" "ex_inv X" by (auto simp: object_ok_def)
  with ex_invD(6) [OF this(2)] have "\<exists>X. pd_exporter (sy_obj S) = Some X \<and>
     (\<forall>g. map_of (ex_series X) g \<noteq> None \<longrightarrow> (\<exists>k. map_of (ex_cache X) k = Some g))" by blast
  moreover have "pd_cache_data (sy_obj S) \<longrightarrow>
      int (length (pd_event_queue (sy_obj S))) \<le> pd_max_event_queue_size (sy_obj S)"
    using obj by (simp add: object_ok_def queue_inv_def)
  moreover have "\<forall>j \<in> set (pd_event_queue (sy_obj S)). \<exists>e \<in> set (take (sy_done S) (tr_events (sy_tracer S))).
       j = event_obj e \<and> (self = 0 \<or> ev_pid e \<noteq> self)"
    using ok assms(4) by (fastforce simp: system_ok_def tracer_ok_def dest: in_set_takeD)
  ultimately show ?thesis using ok assms(4) by (simp add: system_ok_def tracer_ok_def)
qed

theorem system_invariant_witness:
  "tr_reserved (sy_tracer written) = 0 \<and> (\<exists>n \<le> sy_done written. counted (sy_obj written) = Some n)"
proof -
  obtain l where new: "new_postdata num_json (\<lambda>_. None) (sample_fs 0) sample_object (Some 3) sample_path False [] =
    (Inr (completed 3 sample_object), l)" using sample_started by blast
  have "sys_reaches sample_tree (started 7 (sample_fs 0) (completed 3 sample_object)) written"
    using written_step by (rule r_into_rtranclp)
  from system_invariant [OF num_json_ok new this] show ?thesis
    by (simp add: written_def started_def)
qed

end
