(* ===== verification/Interleave.thy ===== *)
theory Interleave
  imports System
begin

text \<open>
  Below the steps of \<open>System\<close>: the callback of the ring buffer is not one critical section. It takes
  \<open>config_mutex\<close> to filter, \<open>gauge_cache_mutex\<close> to update the metrics and \<open>event_queue_mutex\<close> to queue the
  document, and between them the HTTP server, the cleaning thread and the BPF programs go on. Here
  the callback runs section by section, and every such run is shown to be equivalent to one of
  \<open>System\<close>, where it runs at once: each section reads and writes its own part of the state.
\<close>

section \<open>Parts of a state\<close>

text \<open>
  \<open>copy i u s\<close>: the state \<open>s\<close> with its part \<open>i\<close> taken from \<open>u\<close>. A step stays in a part when it changes
  nothing else, and ignores a part when it neither reads nor writes it.
\<close>

definition stays_in :: "('i \<Rightarrow> 's \<Rightarrow> 's \<Rightarrow> 's) \<Rightarrow> 'i \<Rightarrow> ('s \<Rightarrow> 's \<Rightarrow> bool) \<Rightarrow> bool" where
  "stays_in copy i R \<longleftrightarrow> (\<forall>s t. R s t \<longrightarrow> t = copy i t s)"

definition ignores :: "('i \<Rightarrow> 's \<Rightarrow> 's \<Rightarrow> 's) \<Rightarrow> 'i \<Rightarrow> ('s \<Rightarrow> 's \<Rightarrow> bool) \<Rightarrow> bool" where
  "ignores copy i R \<longleftrightarrow> (\<forall>s t u. R s t \<longrightarrow> R (copy i u s) (copy i u t))"

text \<open>\<open>before L R\<close>: an \<open>L\<close> step that follows an \<open>R\<close> step can be made first.\<close>

definition before :: "('s \<Rightarrow> 's \<Rightarrow> bool) \<Rightarrow> ('s \<Rightarrow> 's \<Rightarrow> bool) \<Rightarrow> bool" where
  "before L R \<longleftrightarrow> (\<forall>s t v. R s t \<longrightarrow> L t v \<longrightarrow> (\<exists>w. L s w \<and> R w v))"

lemma beforeD: "before L R \<Longrightarrow> R s t \<Longrightarrow> L t v \<Longrightarrow> \<exists>w. L s w \<and> R w v"
  by (auto simp: before_def)

lemma before_star:
  assumes "before L R"
  shows "before L R\<^sup>*\<^sup>*"
proof -
  have "R\<^sup>*\<^sup>* s t \<Longrightarrow> L t v \<Longrightarrow> \<exists>w. L s w \<and> R\<^sup>*\<^sup>* w v" for s t v
  proof (induction arbitrary: v rule: rtranclp_induct)
    case (step t u)
    obtain w where "L t w" "R w v" using beforeD [OF assms step.hyps(2) step.prems] by blast
    then show ?case using step.IH by (meson rtranclp.rtrancl_into_rtrancl)
  qed blast
  then show ?thesis by (auto simp: before_def)
qed

locale parts =
  fixes copy :: "'i \<Rightarrow> 's \<Rightarrow> 's \<Rightarrow> 's"
  assumes copy_self: "copy i s s = s"
    and copy_again: "copy i u (copy i v s) = copy i u s"
    and copy_from: "i \<noteq> j \<Longrightarrow> copy i (copy j u t) s = copy i t s"
    and copy_other: "i \<noteq> j \<Longrightarrow> copy i u (copy j v s) = copy j v (copy i u s)"
begin

text \<open>Steps in different parts that ignore each other commute.\<close>

lemma disjoint_before:
  assumes "i \<noteq> j" and R: "stays_in copy i R" "ignores copy j R" and L: "stays_in copy j L" "ignores copy i L"
  shows "before L R"
  unfolding before_def
proof (intro allI impI)
  fix s t v
  assume "R s t" and "L t v"
  have t: "t = copy i t s" using R(1) \<open>R s t\<close> by (simp add: stays_in_def)
  have v: "v = copy j v t" using L(1) \<open>L t v\<close> by (simp add: stays_in_def)
  have "copy i s t = s" by (subst t) (simp add: copy_again copy_self)
  then have 1: "L s (copy i s v)" using L(2) \<open>L t v\<close> by (metis ignores_def)
  have "copy i s v = copy j v (copy i s t)" by (subst v) (simp add: copy_other [OF assms(1)])
  then have "copy i s v = copy j v s" using \<open>copy i s t = s\<close> by simp
  then have "R (copy i s v) v" using R(2) \<open>R s t\<close> v by (metis ignores_def)
  with 1 show "\<exists>w. L s w \<and> R w v" by blast
qed

lemma stays_other:
  assumes "stays_in copy i R" and "R s t" and "i \<noteq> j"
  shows "copy j t s = s"
proof -
  have "t = copy i t s" using assms(1,2) by (simp add: stays_in_def)
  then have "copy j t s = copy j (copy i t s) s" by simp
  then show ?thesis using assms(3) by (simp add: copy_from copy_self)
qed

end

section \<open>The parts of the daemon\<close>

datatype part = Config_part | Queue_part | Exporter_part | Kernel_part

text \<open>What \<open>config_mutex\<close>, \<open>event_queue_mutex\<close> and \<open>gauge_cache_mutex\<close> protect, and the BPF side.\<close>

fun copy_part :: "part \<Rightarrow> system \<Rightarrow> system \<Rightarrow> system" where
  "copy_part Config_part u s = s\<lparr>sy_fs := sy_fs u, sy_config_answers := sy_config_answers u,
     sy_obj := (sy_obj s)\<lparr>pd_conf_list := pd_conf_list (sy_obj u),
       pd_config_json_obj := pd_config_json_obj (sy_obj u)\<rparr>\<rparr>"
| "copy_part Queue_part u s = s\<lparr>sy_done := sy_done u, sy_event_answers := sy_event_answers u,
     sy_obj := (sy_obj s)\<lparr>pd_event_queue := pd_event_queue (sy_obj u)\<rparr>\<rparr>"
| "copy_part Exporter_part u s = s\<lparr>sy_obj := (sy_obj s)\<lparr>pd_exporter := pd_exporter (sy_obj u)\<rparr>\<rparr>"
| "copy_part Kernel_part u s = s\<lparr>sy_tracer := sy_tracer u\<rparr>"

lemma copy_part_self: "copy_part i s s = s"
  by (cases i) simp_all

lemma copy_part_again: "copy_part i u (copy_part i v s) = copy_part i u s"
  by (cases i) simp_all

lemma copy_part_from: "i \<noteq> j \<Longrightarrow> copy_part i (copy_part j u t) s = copy_part i t s"
  by (cases i; cases j) simp_all

lemma copy_part_other: "i \<noteq> j \<Longrightarrow> copy_part i u (copy_part j v s) = copy_part j v (copy_part i u s)"
  by (cases i; cases j) simp_all

interpretation dp: parts copy_part
  by unfold_locales (simp_all add: copy_part_self copy_part_again copy_part_from copy_part_other)

section \<open>The threads beside the callback\<close>

definition is_event_request :: "http_request \<Rightarrow> bool" where
  "is_event_request r = (case r of Get_monitor_file_status param \<Rightarrow> True | _ \<Rightarrow> False)"

text \<open>A step of another thread or of the BPF side, with the part it is about.\<close>

inductive other_step :: "kernel \<Rightarrow> part \<Rightarrow> system \<Rightarrow> system \<Rightarrow> bool" for K where
  program_runs: "task_ok t \<Longrightarrow> other_step K Kernel_part S (S\<lparr>sy_tracer := run_hook K room t h (sy_tracer S)\<rparr>)"
| config_request: "sy_alive S \<Longrightarrow> pd_publish (sy_obj S) \<Longrightarrow> \<not> is_event_request r \<Longrightarrow>
    serve J r (sy_fs S) (sy_obj S) = (res, f, q, l) \<Longrightarrow>
    other_step K Config_part S ((noted r res S)\<lparr>sy_fs := f, sy_obj := q\<rparr>)"
| event_request: "sy_alive S \<Longrightarrow> pd_publish (sy_obj S) \<Longrightarrow> is_event_request r \<Longrightarrow>
    serve J r (sy_fs S) (sy_obj S) = (res, f, q, l) \<Longrightarrow>
    other_step K Queue_part S ((noted r res S)\<lparr>sy_fs := f, sy_obj := q\<rparr>)"
| round_runs: "sy_alive S \<Longrightarrow> prom_ok P \<Longrightarrow> pd_exporter (sy_obj S) = Some X \<Longrightarrow> sweep P clock X = Inr (Y, l) \<Longrightarrow>
    other_step K Exporter_part S (S\<lparr>sy_obj := (sy_obj S)\<lparr>pd_exporter := Some Y\<rparr>\<rparr>)"

inductive_cases other_stepE: "other_step K i S S'"

lemma other_is_step: "other_step K i S S' \<Longrightarrow> sys_step K S S'"
  by (erule other_stepE) (auto intro: bpf_program request cleaning_round)

lemma other_alive: "other_step K i S S' \<Longrightarrow> sy_alive S' = sy_alive S"
  by (erule other_stepE) simp_all

section \<open>What each of them reads and writes\<close>

text \<open>An update of the configuration, with other members of the object set to other values.\<close>

lemma persist_frame:
  "persist_config J f (p\<lparr>pd_event_queue := x\<rparr>) =
     (case persist_config J f p of (r, f', q, l) \<Rightarrow> (r, f', q\<lparr>pd_event_queue := x\<rparr>, l))"
  "persist_config J f (p\<lparr>pd_exporter := y\<rparr>) =
     (case persist_config J f p of (r, f', q, l) \<Rightarrow> (r, f', q\<lparr>pd_exporter := y\<rparr>, l))"
  by (simp_all add: persist_config_def Let_def split: sum.splits option.splits prod.splits)

lemma update_frame:
  "update_config J j f (p\<lparr>pd_event_queue := x\<rparr>) =
     (case update_config J j f p of (r, f', q, l) \<Rightarrow> (r, f', q\<lparr>pd_event_queue := x\<rparr>, l))"
  "update_config J j f (p\<lparr>pd_exporter := y\<rparr>) =
     (case update_config J j f p of (r, f', q, l) \<Rightarrow> (r, f', q\<lparr>pd_exporter := y\<rparr>, l))"
proof -
  have swap: "p\<lparr>pd_event_queue := x, pd_conf_list := c\<rparr> = p\<lparr>pd_conf_list := c, pd_event_queue := x\<rparr>"
    "p\<lparr>pd_exporter := y, pd_conf_list := c\<rparr> = p\<lparr>pd_conf_list := c, pd_exporter := y\<rparr>" for c by simp_all
  show "update_config J j f (p\<lparr>pd_event_queue := x\<rparr>) =
      (case update_config J j f p of (r, f', q, l) \<Rightarrow> (r, f', q\<lparr>pd_event_queue := x\<rparr>, l))"
    "update_config J j f (p\<lparr>pd_exporter := y\<rparr>) =
      (case update_config J j f p of (r, f', q, l) \<Rightarrow> (r, f', q\<lparr>pd_exporter := y\<rparr>, l))"
    unfolding update_config_def Let_def swap
    by (simp_all add: persist_frame split: sum.splits option.splits prod.splits)
qed

lemma update_request_frame:
  "handle_update_config_request J body f (p\<lparr>pd_event_queue := x\<rparr>) =
     (case handle_update_config_request J body f p of (r, f', q, l) \<Rightarrow> (r, f', q\<lparr>pd_event_queue := x\<rparr>, l))"
  "handle_update_config_request J body f (p\<lparr>pd_exporter := y\<rparr>) =
     (case handle_update_config_request J body f p of (r, f', q, l) \<Rightarrow> (r, f', q\<lparr>pd_exporter := y\<rparr>, l))"
  by (simp_all add: handle_update_config_request_def update_frame split: sum.splits prod.splits)

lemma persist_writes: "persist_config J f p = (r, f', q, l) \<Longrightarrow> \<exists>d. q = p\<lparr>pd_config_json_obj := d\<rparr>"
  by (fastforce simp: persist_config_def Let_def intro: exI [of _ "pd_config_json_obj p"]
      split: sum.splits option.splits prod.splits if_splits)

lemma update_config_writes:
  assumes "update_config J j f p = (r, f', q, l)"
  shows "\<exists>c d. q = p\<lparr>pd_conf_list := c, pd_config_json_obj := d\<rparr>"
proof -
  have refl: "\<exists>c d. p = p\<lparr>pd_conf_list := c, pd_config_json_obj := d\<rparr>" for p :: postdata
    by (intro exI [of _ "pd_conf_list p"] exI [of _ "pd_config_json_obj p"]) simp
  show ?thesis
    using assms
    by (auto simp: update_config_def Let_def intro: refl split: sum.splits option.splits prod.splits if_splits
        dest!: persist_writes)
qed

lemma update_writes:
  assumes "handle_update_config_request J body f p = (r, f', q, l)"
  shows "q = p\<lparr>pd_conf_list := pd_conf_list q, pd_config_json_obj := pd_config_json_obj q\<rparr>"
  using assms
  by (auto simp: handle_update_config_request_def split: sum.splits prod.splits if_splits
      dest!: update_config_writes)

lemma config_request_frame:
  assumes "\<not> is_event_request r"
  shows "serve J r f (p\<lparr>pd_event_queue := x\<rparr>) =
      (case serve J r f p of (res, f', q, l) \<Rightarrow> (res, f', q\<lparr>pd_event_queue := x\<rparr>, l))"
    and "serve J r f (p\<lparr>pd_exporter := y\<rparr>) =
      (case serve J r f p of (res, f', q, l) \<Rightarrow> (res, f', q\<lparr>pd_exporter := y\<rparr>, l))"
  using assms
  by (cases r; simp add: is_event_request_def serve_def registered_def route_def update_request_frame get_filetrace_def
      split: prod.splits)+

lemma config_request_writes:
  assumes "\<not> is_event_request r" and "serve J r f p = (res, f', q, l)"
  shows "q = p\<lparr>pd_conf_list := pd_conf_list q, pd_config_json_obj := pd_config_json_obj q\<rparr>"
  using assms update_writes
  by (cases r) (auto simp: is_event_request_def serve_def registered_def route_def split: prod.splits)

text \<open>The request that hands out events.\<close>

lemma monitor_frame:
  "monitor_file_status J param (p\<lparr>pd_conf_list := c, pd_config_json_obj := o'\<rparr>) =
     (case monitor_file_status J param p of
        (r, q, l) \<Rightarrow> (r, q\<lparr>pd_conf_list := c, pd_config_json_obj := o'\<rparr>, l))"
  "monitor_file_status J param (p\<lparr>pd_exporter := y\<rparr>) =
     (case monitor_file_status J param p of (r, q, l) \<Rightarrow> (r, q\<lparr>pd_exporter := y\<rparr>, l))"
  by (simp_all add: monitor_file_status_def get_events_from_queue_def Let_def
      split: sum.splits prod.splits json.splits)

lemma monitor_writes:
  "monitor_file_status J param p = (r, q, l) \<Longrightarrow> q = p\<lparr>pd_event_queue := pd_event_queue q\<rparr>"
  by (auto simp: monitor_file_status_def get_events_from_queue_def Let_def
      split: sum.splits prod.splits if_splits)

lemma event_request_frame:
  assumes "is_event_request r"
  shows "serve J r f (p\<lparr>pd_conf_list := c, pd_config_json_obj := o'\<rparr>) =
      (case serve J r f p of (res, f', q, l) \<Rightarrow> (res, f', q\<lparr>pd_conf_list := c, pd_config_json_obj := o'\<rparr>, l))"
    and "serve J r f (p\<lparr>pd_exporter := y\<rparr>) =
      (case serve J r f p of (res, f', q, l) \<Rightarrow> (res, f', q\<lparr>pd_exporter := y\<rparr>, l))"
  using assms
  by (cases r; simp add: is_event_request_def serve_def registered_def route_def monitor_frame split: prod.splits)+

lemma event_request_writes:
  assumes "is_event_request r" and "serve J r f p = (res, f', q, l)"
  shows "f' = f" and "q = p\<lparr>pd_event_queue := pd_event_queue q\<rparr>"
  using assms monitor_writes
  by (cases r; auto simp: is_event_request_def serve_def registered_def route_def split: prod.splits if_splits)+

lemma event_request_any_file:
  assumes "is_event_request r" and "serve J r f p = (res, f', q, l)"
  shows "serve J r g p = (res, g, q, l)"
  using assms by (cases r) (auto simp: is_event_request_def serve_def registered_def route_def split: prod.splits if_splits)

lemma noted_config:
  "\<not> is_event_request r \<Longrightarrow> noted r res S = S\<lparr>sy_config_answers := sy_config_answers S @ [(r, res)]\<rparr>"
  by (cases r) (simp_all add: noted_def is_event_request_def)

lemma noted_event:
  "is_event_request r \<Longrightarrow> noted r res S = S\<lparr>sy_event_answers := sy_event_answers S @ [(r, res)]\<rparr>"
  by (cases r) (simp_all add: noted_def is_event_request_def)

lemma other_stays: "stays_in copy_part i (other_step K i)"
  unfolding stays_in_def
proof (intro allI impI)
  fix S S'
  assume "other_step K i S S'"
  then show "S' = copy_part i S' S"
  proof (cases rule: other_stepE [consumes 1])
    case (2 r J res f q l)
    note w = config_request_writes [OF 2(5,6)]
    show ?thesis unfolding 2(1,2) noted_config [OF 2(5)] by (rule system.equality) (simp_all add: w [symmetric])
  next
    case (3 r J res f q l)
    note w = event_request_writes [OF 3(5,6)]
    show ?thesis unfolding 3(1,2) noted_event [OF 3(5)] w(1)
      by (rule system.equality) (simp_all add: w(2) [symmetric])
  qed simp_all
qed

lemma config_request_ignores:
  "j \<noteq> Config_part \<Longrightarrow> ignores copy_part j (other_step K Config_part)"
  unfolding ignores_def
proof (intro allI impI)
  fix S S' U
  assume "j \<noteq> Config_part" and "other_step K Config_part S S'"
  from this(2) obtain r J res f q l where S': "S' = (noted r res S)\<lparr>sy_fs := f, sy_obj := q\<rparr>"
    and r: "sy_alive S" "pd_publish (sy_obj S)" "\<not> is_event_request r"
    and run: "serve J r (sy_fs S) (sy_obj S) = (res, f, q, l)"
    by (cases rule: other_stepE [consumes 1]) auto
  let ?V = "copy_part j U S" and ?q = "sy_obj (copy_part j U S')"
  have "serve J r (sy_fs ?V) (sy_obj ?V) = (res, f, ?q, l)"
    using \<open>j \<noteq> _\<close> run config_request_frame [OF r(3)] S' by (cases j) simp_all
  moreover have "sy_alive ?V" "pd_publish (sy_obj ?V)" using r by (cases j; simp)+
  ultimately have "other_step K Config_part ?V ((noted r res ?V)\<lparr>sy_fs := f, sy_obj := ?q\<rparr>)"
    by (intro config_request r(3))
  moreover have "copy_part j U S' = (noted r res ?V)\<lparr>sy_fs := f, sy_obj := ?q\<rparr>"
    using \<open>j \<noteq> _\<close> by (intro system.equality; cases j) (simp_all add: S' noted_config [OF r(3)])
  ultimately show "other_step K Config_part ?V (copy_part j U S')" by simp
qed

lemma event_request_ignores:
  "j \<noteq> Queue_part \<Longrightarrow> ignores copy_part j (other_step K Queue_part)"
  unfolding ignores_def
proof (intro allI impI)
  fix S S' U
  assume "j \<noteq> Queue_part" and "other_step K Queue_part S S'"
  from this(2) obtain r J res f q l where S': "S' = (noted r res S)\<lparr>sy_fs := f, sy_obj := q\<rparr>"
    and r: "sy_alive S" "pd_publish (sy_obj S)" "is_event_request r"
    and run: "serve J r (sy_fs S) (sy_obj S) = (res, f, q, l)"
    by (cases rule: other_stepE [consumes 1]) auto
  have f: "f = sy_fs S" using event_request_writes(1) [OF r(3) run] .
  let ?V = "copy_part j U S" and ?q = "sy_obj (copy_part j U S')"
  have "serve J r (sy_fs ?V) (sy_obj ?V) = (res, sy_fs ?V, ?q, l)"
    using \<open>j \<noteq> _\<close> run event_request_frame [OF r(3)] S' event_request_any_file [OF r(3) run, of "sy_fs U"] f
    by (cases j) simp_all
  moreover have "sy_alive ?V" "pd_publish (sy_obj ?V)" using r by (cases j; simp)+
  ultimately have "other_step K Queue_part ?V ((noted r res ?V)\<lparr>sy_fs := sy_fs ?V, sy_obj := ?q\<rparr>)"
    by (intro event_request r(3))
  moreover have "copy_part j U S' = (noted r res ?V)\<lparr>sy_fs := sy_fs ?V, sy_obj := ?q\<rparr>"
    using \<open>j \<noteq> _\<close> by (intro system.equality; cases j) (simp_all add: S' f noted_event [OF r(3)])
  ultimately show "other_step K Queue_part ?V (copy_part j U S')" by simp
qed

lemma round_ignores:
  "j \<noteq> Exporter_part \<Longrightarrow> ignores copy_part j (other_step K Exporter_part)"
  unfolding ignores_def
proof (intro allI impI)
  fix S S' U
  assume j: "j \<noteq> Exporter_part" and "other_step K Exporter_part S S'"
  from this(2) show "other_step K Exporter_part (copy_part j U S) (copy_part j U S')"
  proof (cases rule: other_stepE [consumes 1])
    case (4 P X clock Y l)
    let ?V = "copy_part j U S"
    have "sy_alive ?V" "pd_exporter (sy_obj ?V) = Some X" using 4(3,5) j by (cases j; simp)+
    then have "other_step K Exporter_part ?V (?V\<lparr>sy_obj := (sy_obj ?V)\<lparr>pd_exporter := Some Y\<rparr>\<rparr>)"
      using 4(4,6) by (intro round_runs)
    moreover have "copy_part j U S' = ?V\<lparr>sy_obj := (sy_obj ?V)\<lparr>pd_exporter := Some Y\<rparr>\<rparr>"
      using j by (intro system.equality postdata.equality; cases j) (simp_all add: 4(2))
    ultimately show ?thesis by simp
  qed simp_all
qed

lemma program_ignores:
  assumes "j \<noteq> Kernel_part"
  shows "ignores copy_part j (other_step K Kernel_part)"
  unfolding ignores_def
proof (intro allI impI)
  fix S S' U
  assume "other_step K Kernel_part S S'"
  then obtain t room h where S': "S' = S\<lparr>sy_tracer := run_hook K room t h (sy_tracer S)\<rparr>" and "task_ok t"
    by (cases rule: other_stepE [consumes 1]) auto
  moreover have "copy_part j U S' = (copy_part j U S)\<lparr>sy_tracer := run_hook K room t h (sy_tracer (copy_part j U S))\<rparr>"
    using assms by (intro system.equality; cases j) (simp_all add: S')
  ultimately show "other_step K Kernel_part (copy_part j U S) (copy_part j U S')"
    using program_runs [of t K "copy_part j U S" room h] by simp
qed

lemma other_ignores: "i \<noteq> j \<Longrightarrow> ignores copy_part j (other_step K i)"
  using config_request_ignores event_request_ignores round_ignores program_ignores by (cases i) auto

section \<open>The callback, section by section\<close>

text \<open>
  Where the callback is between two sections: it waits for the next record, has filtered the event,
  has sent it and updated the metrics, or is about to return a result.
\<close>

datatype stage = Polling | Filtered | Sent int | Returned int

definition next_section :: "env \<Rightarrow> event \<Rightarrow> stage \<Rightarrow> postdata \<Rightarrow>
    ((fault + stage) \<times> postdata \<times> effect list) option" where
  "next_section E e g p =
     (case g of
        Polling \<Rightarrow>
          (case is_valid_event e p of Inl x \<Rightarrow> Some (Inl x, p, [])
           | Inr (False, l) \<Rightarrow> Some (Inr (Returned 0), p, l)
           | Inr (True, l) \<Rightarrow>
               (if pd_verbose p
                then (case print_event e of Inl x \<Rightarrow> Some (Inl x, p, l)
                      | Inr l2 \<Rightarrow> Some (Inr (Returned 0), p, l @ l2))
                else Some (Inr Filtered, p, l)))
      | Filtered \<Rightarrow>
          (case send E e p of None \<Rightarrow> None
           | Some (Inl x, q, l) \<Rightarrow> Some (Inl x, q, l)
           | Some (Inr result, q, l) \<Rightarrow> Some (Inr (Sent result), q, l))
      | Sent result \<Rightarrow>
          (case cache_event e p of Inl x \<Rightarrow> Some (Inl x, p, [])
           | Inr (q, l) \<Rightarrow> Some (Inr (Returned result), q, l))
      | Returned result \<Rightarrow> Some (Inr (Returned result), p, []))"

text \<open>The sections in a row, with nothing in between.\<close>

fun run_sections :: "nat \<Rightarrow> env \<Rightarrow> event \<Rightarrow> stage \<Rightarrow> postdata \<Rightarrow>
    ((fault + stage) \<times> postdata \<times> effect list) option" where
  "run_sections 0 E e g p = Some (Inr g, p, [])"
| "run_sections (Suc n) E e g p =
     (case next_section E e g p of None \<Rightarrow> None
      | Some (Inl x, q, l) \<Rightarrow> Some (Inl x, q, l)
      | Some (Inr g', q, l) \<Rightarrow>
          (case run_sections n E e g' q of None \<Rightarrow> None
           | Some (r, q', l') \<Rightarrow> Some (r, q', l @ l')))"

text \<open>Three of them are all of \<open>process_event\<close>.\<close>

lemma sections_are_process_event:
  "run_sections 3 E e Polling p =
     (case process_event E e p of None \<Rightarrow> None
      | Some (Inl x, q, l) \<Rightarrow> Some (Inl x, q, l)
      | Some (Inr r, q, l) \<Rightarrow> Some (Inr (Returned r), q, l))"
  by (simp add: process_event_def next_section_def eval_nat_numeral
      split: sum.splits bool.splits option.splits prod.splits)

text \<open>
  The daemon with its callback at a stage. The record the callback works on is the first that is not
  handled yet, and it is handled when the callback returns. An exception ends the daemon.
\<close>

definition handled :: "stage \<Rightarrow> system \<Rightarrow> system" where
  "handled g S = (case g of Returned r \<Rightarrow> S\<lparr>sy_done := sy_done S + 1\<rparr> | _ \<Rightarrow> S)"

definition settled :: "stage \<Rightarrow> stage" where
  "settled g = (case g of Returned r \<Rightarrow> Polling | _ \<Rightarrow> g)"

inductive fine_step :: "kernel \<Rightarrow> system \<times> stage \<Rightarrow> system \<times> stage \<Rightarrow> bool" for K where
  other: "other_step K i S S' \<Longrightarrow> fine_step K (S, g) (S', g)"
| callback_section: "sy_alive S \<Longrightarrow> env_ok E \<Longrightarrow> en_map E = map_of (tr_exec (sy_tracer S)) \<Longrightarrow>
    sy_done S < length (tr_events (sy_tracer S)) \<Longrightarrow>
    next_section E (tr_events (sy_tracer S) ! sy_done S) g (sy_obj S) = Some (Inr g', q, l) \<Longrightarrow>
    fine_step K (S, g) (handled g' (S\<lparr>sy_obj := q\<rparr>), settled g')"
| callback_fails: "sy_alive S \<Longrightarrow> env_ok E \<Longrightarrow> en_map E = map_of (tr_exec (sy_tracer S)) \<Longrightarrow>
    sy_done S < length (tr_events (sy_tracer S)) \<Longrightarrow>
    next_section E (tr_events (sy_tracer S) ! sy_done S) g (sy_obj S) = Some (Inl x, q, l) \<Longrightarrow>
    fine_step K (S, g) (S\<lparr>sy_done := sy_done S + 1, sy_obj := q, sy_alive := False\<rparr>, Polling)"

inductive_cases fine_stepE: "fine_step K (S, g) c"

abbreviation fine_reaches :: "kernel \<Rightarrow> system \<times> stage \<Rightarrow> system \<times> stage \<Rightarrow> bool" where
  "fine_reaches K \<equiv> (fine_step K)\<^sup>*\<^sup>*"

section \<open>The sections as steps\<close>

text \<open>The event the callback works on, and the two outcomes of the filter.\<close>

definition current :: "system \<Rightarrow> event \<Rightarrow> bool" where
  "current S e \<longleftrightarrow> sy_done S < length (tr_events (sy_tracer S)) \<and> tr_events (sy_tracer S) ! sy_done S = e"

definition filter_passes :: "event \<Rightarrow> system \<Rightarrow> bool" where
  "filter_passes e S \<longleftrightarrow> sy_alive S \<and> current S e \<and> \<not> pd_verbose (sy_obj S) \<and>
     (\<exists>l. is_valid_event e (sy_obj S) = Inr (True, l))"

definition send_step :: "env \<Rightarrow> event \<Rightarrow> int \<Rightarrow> system \<Rightarrow> system \<Rightarrow> bool" where
  "send_step E e r S S' \<longleftrightarrow> env_ok E \<and> en_map E = map_of (tr_exec (sy_tracer S)) \<and>
     (\<exists>q l. send E e (sy_obj S) = Some (Inr r, q, l) \<and> S' = S\<lparr>sy_obj := q\<rparr>)"

definition cache_step :: "event \<Rightarrow> system \<Rightarrow> system \<Rightarrow> bool" where
  "cache_step e S S' \<longleftrightarrow>
     (\<exists>q l. cache_event e (sy_obj S) = Inr (q, l) \<and> S' = S\<lparr>sy_done := sy_done S + 1, sy_obj := q\<rparr>)"

lemma send_writes: "send E e p = Some (Inr r, q, l) \<Longrightarrow> q = p\<lparr>pd_exporter := pd_exporter q\<rparr>"
  by (auto dest!: send_exporter)

lemma document_frame:
  "convert_to_string E (p\<lparr>pd_event_queue := x\<rparr>) e = convert_to_string E p e"
  "convert_to_string E (p\<lparr>pd_conf_list := c, pd_config_json_obj := d\<rparr>) e = convert_to_string E p e"
  "post_data E (p\<lparr>pd_event_queue := x\<rparr>) data = post_data E p data"
  "post_data E (p\<lparr>pd_conf_list := c, pd_config_json_obj := d\<rparr>) data = post_data E p data"
proof -
  have "event_document E (p\<lparr>pd_event_queue := x\<rparr>) = event_document E p"
    "event_document E (p\<lparr>pd_conf_list := c, pd_config_json_obj := d\<rparr>) = event_document E p"
    by (simp_all add: event_document_def fun_eq_iff)
  then show "convert_to_string E (p\<lparr>pd_event_queue := x\<rparr>) e = convert_to_string E p e"
    "convert_to_string E (p\<lparr>pd_conf_list := c, pd_config_json_obj := d\<rparr>) e = convert_to_string E p e"
    by (simp_all only: convert_to_string_def)
qed (simp_all add: post_data_def)

lemma send_frame_other:
  "send E e (p\<lparr>pd_event_queue := x\<rparr>) =
     (case send E e p of None \<Rightarrow> None | Some (r, q, l) \<Rightarrow> Some (r, q\<lparr>pd_event_queue := x\<rparr>, l))"
  "send E e (p\<lparr>pd_conf_list := c, pd_config_json_obj := d\<rparr>) =
     (case send E e p of None \<Rightarrow> None
      | Some (r, q, l) \<Rightarrow> Some (r, q\<lparr>pd_conf_list := c, pd_config_json_obj := d\<rparr>, l))"
proof -
  have swap: "p\<lparr>pd_event_queue := x, pd_exporter := y\<rparr> = p\<lparr>pd_exporter := y, pd_event_queue := x\<rparr>"
    "p\<lparr>pd_conf_list := c, pd_config_json_obj := d, pd_exporter := y\<rparr> =
     p\<lparr>pd_exporter := y, pd_conf_list := c, pd_config_json_obj := d\<rparr>" for y by simp_all
  show "send E e (p\<lparr>pd_event_queue := x\<rparr>) =
     (case send E e p of None \<Rightarrow> None | Some (r, q, l) \<Rightarrow> Some (r, q\<lparr>pd_event_queue := x\<rparr>, l))"
    unfolding send_def Let_def swap document_frame by (simp split: option.split sum.split prod.split)
  show "send E e (p\<lparr>pd_conf_list := c, pd_config_json_obj := d\<rparr>) =
     (case send E e p of None \<Rightarrow> None
      | Some (r, q, l) \<Rightarrow> Some (r, q\<lparr>pd_conf_list := c, pd_config_json_obj := d\<rparr>, l))"
    unfolding send_def Let_def swap document_frame by (simp split: option.split sum.split prod.split)
qed

lemma cache_writes: "cache_event e p = Inr (q, l) \<Longrightarrow> q = p\<lparr>pd_event_queue := pd_event_queue q\<rparr>"
  by (auto simp: cache_event_def Let_def split: sum.splits if_splits)

lemma cache_frame_other:
  assumes "cache_event e p = Inr (q, l)"
  shows "cache_event e (p\<lparr>pd_exporter := y\<rparr>) = Inr (q\<lparr>pd_exporter := y\<rparr>, l)"
    and "cache_event e (p\<lparr>pd_conf_list := c, pd_config_json_obj := d\<rparr>) =
      Inr (q\<lparr>pd_conf_list := c, pd_config_json_obj := d\<rparr>, l)"
  using assms by (auto simp: cache_event_def Let_def split: sum.splits if_splits)

lemma send_stays: "stays_in copy_part Exporter_part (send_step E e r)"
  unfolding stays_in_def send_step_def
proof (intro allI impI, elim conjE exE)
  fix S S' :: system and q l
  assume run: "send E e (sy_obj S) = Some (Inr r, q, l)" and S': "S' = S\<lparr>sy_obj := q\<rparr>"
  show "S' = copy_part Exporter_part S' S"
    unfolding S' by (rule system.equality) (simp_all add: send_writes [OF run, symmetric])
qed

lemma send_ignores:
  assumes "j = Config_part \<or> j = Queue_part"
  shows "ignores copy_part j (send_step E e r)"
  unfolding ignores_def send_step_def
proof (intro allI impI, elim conjE exE)
  fix S S' U :: system and q l
  assume E: "env_ok E" "en_map E = map_of (tr_exec (sy_tracer S))"
    and run: "send E e (sy_obj S) = Some (Inr r, q, l)" and S': "S' = S\<lparr>sy_obj := q\<rparr>"
  let ?V = "copy_part j U S" and ?q = "sy_obj (copy_part j U S')"
  have "send E e (sy_obj ?V) = Some (Inr r, ?q, l)" and "sy_tracer ?V = sy_tracer S"
    using assms run S' by (auto simp: send_frame_other)
  moreover have "copy_part j U S' = ?V\<lparr>sy_obj := ?q\<rparr>"
    using assms by (intro system.equality; cases j) (simp_all add: S')
  ultimately show "env_ok E \<and> en_map E = map_of (tr_exec (sy_tracer ?V)) \<and>
      (\<exists>q l. send E e (sy_obj ?V) = Some (Inr r, q, l) \<and> copy_part j U S' = ?V\<lparr>sy_obj := q\<rparr>)"
    using E by auto
qed

lemma cache_stays: "stays_in copy_part Queue_part (cache_step e)"
  unfolding stays_in_def cache_step_def
proof (intro allI impI, elim conjE exE)
  fix S S' :: system and q l
  assume run: "cache_event e (sy_obj S) = Inr (q, l)" and S': "S' = S\<lparr>sy_done := sy_done S + 1, sy_obj := q\<rparr>"
  show "S' = copy_part Queue_part S' S"
    unfolding S' by (rule system.equality) (simp_all add: cache_writes [OF run, symmetric])
qed

lemma cache_ignores:
  assumes "j \<noteq> Queue_part"
  shows "ignores copy_part j (cache_step e)"
  unfolding ignores_def cache_step_def
proof (intro allI impI, elim conjE exE)
  fix S S' U :: system and q l
  assume run: "cache_event e (sy_obj S) = Inr (q, l)" and S': "S' = S\<lparr>sy_done := sy_done S + 1, sy_obj := q\<rparr>"
  let ?V = "copy_part j U S" and ?q = "sy_obj (copy_part j U S')"
  have "cache_event e (sy_obj ?V) = Inr (?q, l)"
    using assms run S' cache_frame_other [OF run] by (cases j) simp_all
  moreover have "copy_part j U S' = ?V\<lparr>sy_done := sy_done ?V + 1, sy_obj := ?q\<rparr>"
    using assms by (intro system.equality; cases j) (simp_all add: S')
  ultimately show "\<exists>q l. cache_event e (sy_obj ?V) = Inr (q, l) \<and>
      copy_part j U S' = ?V\<lparr>sy_done := sy_done ?V + 1, sy_obj := q\<rparr>"
    by blast
qed

text \<open>Which step can be made before which.\<close>

lemma other_before_other: "i \<noteq> j \<Longrightarrow> before (other_step K j) (other_step K i)"
  by (rule dp.disjoint_before [OF _ other_stays other_ignores other_stays other_ignores]) auto

lemma send_before_config: "before (send_step E e r) (other_step K Config_part)"
  by (rule dp.disjoint_before [OF _ other_stays other_ignores send_stays send_ignores]) auto

lemma request_before_send: "before (other_step K Queue_part) (send_step E e r)"
  by (rule dp.disjoint_before [OF _ send_stays send_ignores other_stays other_ignores]) auto

lemma cache_before_other: "i \<noteq> Queue_part \<Longrightarrow> before (cache_step e) (other_step K i)"
  by (rule dp.disjoint_before [OF _ other_stays other_ignores cache_stays cache_ignores]) auto

text \<open>The steps that can wait until an event has been queued.\<close>

definition late_step :: "kernel \<Rightarrow> system \<Rightarrow> system \<Rightarrow> bool" where
  "late_step K S S' \<longleftrightarrow> (\<exists>i. i \<noteq> Queue_part \<and> other_step K i S S')"

lemma before_late:
  assumes "\<And>i. i \<noteq> Queue_part \<Longrightarrow> before L (other_step K i)"
  shows "before L (late_step K)"
  using assms unfolding before_def late_step_def by metis

lemmas late_movers = before_star [OF before_late [OF other_before_other]] before_star [OF before_late [OF cache_before_other]]

text \<open>They leave the record the callback works on, and what the filter found.\<close>

lemma other_current:
  assumes "other_step K i S S'" and "current S e"
  shows "current S' e"
  using assms(1)
proof (cases rule: other_stepE [consumes 1])
  case (1 t room h)
  obtain es where "tr_events (run_hook K room t h (sy_tracer S)) = tr_events (sy_tracer S) @ es"
    using step_events [OF run_program [OF 1(3)]] by blast
  then show ?thesis using assms(2) by (simp add: current_def 1(2) nth_append)
qed (use assms(2) in \<open>simp_all add: current_def\<close>)

lemma is_valid_event_view:
  "pd_verbose q = pd_verbose p \<Longrightarrow> pd_monitor_file_path q = pd_monitor_file_path p \<Longrightarrow>
   pd_skip_processes q = pd_skip_processes p \<Longrightarrow> pd_conf_list q = pd_conf_list p \<Longrightarrow>
   is_valid_event e q = is_valid_event e p"
proof -
  assume a: "pd_verbose q = pd_verbose p" "pd_monitor_file_path q = pd_monitor_file_path p"
    "pd_skip_processes q = pd_skip_processes p" "pd_conf_list q = pd_conf_list p"
  then have "compare_config_file q = compare_config_file p" by (simp add: fun_eq_iff compare_config_file_def)
  then show ?thesis by (simp only: is_valid_event_def a)
qed

lemma copy_part_filter:
  assumes "i \<noteq> Config_part"
  shows "pd_verbose (sy_obj (copy_part i U S)) = pd_verbose (sy_obj S)"
    and "is_valid_event e (sy_obj (copy_part i U S)) = is_valid_event e (sy_obj S)"
proof -
  show "pd_verbose (sy_obj (copy_part i U S)) = pd_verbose (sy_obj S)" by (cases i) simp_all
  show "is_valid_event e (sy_obj (copy_part i U S)) = is_valid_event e (sy_obj S)"
    by (rule is_valid_event_view; cases i; use assms in simp)
qed

lemma other_filter_passes:
  assumes "other_step K i S S'" and "i \<noteq> Config_part" and "filter_passes e S"
  shows "filter_passes e S'"
proof -
  have S': "S' = copy_part i S' S" using assms(1) other_stays by (simp add: stays_in_def)
  note same = copy_part_filter [OF assms(2), where U = S' and S = S, folded S']
  then show ?thesis
    using assms(3) other_current [OF assms(1)] other_alive [OF assms(1)] by (auto simp: filter_passes_def)
qed

section \<open>Every run is equivalent to one with an atomic callback\<close>

text \<open>
  The run of \<open>System\<close> behind a state: a reachable state \<open>S1\<close> in which the event passes the filter, from
  which the sections done so far lead to the state with only steps that can wait.
\<close>

definition behind :: "kernel \<Rightarrow> system \<Rightarrow> system \<Rightarrow> stage \<Rightarrow> bool" where
  "behind K S0 S g = (case g of
     Polling \<Rightarrow> sys_reaches K S0 S
   | Filtered \<Rightarrow> (\<exists>S1 e. sys_reaches K S0 S1 \<and> filter_passes e S1 \<and> (other_step K Config_part)\<^sup>*\<^sup>* S1 S \<and> current S e)
   | Sent r \<Rightarrow> (\<exists>S1 S2 e E. sys_reaches K S0 S1 \<and> filter_passes e S1 \<and> send_step E e r S1 S2 \<and>
       (late_step K)\<^sup>*\<^sup>* S2 S \<and> current S e)
   | Returned r \<Rightarrow> False)"

lemma sections_are_callback:
  assumes "filter_passes e S1" and "send_step E e r S1 S2" and "cache_step e S2 S3"
  shows "sys_step K S1 S3"
proof -
  obtain l1 q l2 q' l3 where v: "is_valid_event e (sy_obj S1) = Inr (True, l1)"
    and E: "env_ok E" "en_map E = map_of (tr_exec (sy_tracer S1))"
    and s: "send E e (sy_obj S1) = Some (Inr r, q, l2)" and S2: "S2 = S1\<lparr>sy_obj := q\<rparr>"
    and c: "cache_event e q = Inr (q', l3)" and S3: "S3 = S1\<lparr>sy_done := sy_done S1 + 1, sy_obj := q'\<rparr>"
    using assms by (auto simp: filter_passes_def send_step_def cache_step_def)
  have "process_event E e (sy_obj S1) = Some (Inr r, q', l1 @ l2 @ l3)"
    using assms(1) v s c by (simp add: process_event_def filter_passes_def)
  then have "handle_event E (Some e) sizeof_event (Some (sy_obj S1)) = Some (Inr 0, Some q', l1 @ l2 @ l3)"
    by (simp add: handle_event_def)
  then show ?thesis
    using assms(1) E unfolding S3 by (intro callback) (auto simp: filter_passes_def current_def)
qed

lemma filter_is_callback:
  assumes "sy_alive S" and "env_ok E" and "en_map E = map_of (tr_exec (sy_tracer S))"
    and "sy_done S < length (tr_events (sy_tracer S))"
    and "next_section E (tr_events (sy_tracer S) ! sy_done S) Polling (sy_obj S) = Some (Inr (Returned r), q, l)"
  shows "sys_step K S (S\<lparr>sy_done := sy_done S + 1, sy_obj := q\<rparr>)"
proof -
  have "process_event E (tr_events (sy_tracer S) ! sy_done S) (sy_obj S) = Some (Inr 0, q, l)"
    using assms(5) by (auto simp: next_section_def process_event_def split: sum.splits bool.splits if_splits)
  then show ?thesis using assms(1-4) by (intro callback) (auto simp: handle_event_def)
qed

lemma reaches_steps: "sys_reaches K S0 S \<Longrightarrow> (late_step K)\<^sup>*\<^sup>* S S' \<Longrightarrow> sys_reaches K S0 S'"
proof -
  have "(late_step K)\<^sup>*\<^sup>* S S' \<Longrightarrow> sys_reaches K S S'"
    by (rule rtranclp_mono [THEN predicate2D, rotated]) (auto simp: late_step_def dest: other_is_step)
  then show "sys_reaches K S0 S \<Longrightarrow> (late_step K)\<^sup>*\<^sup>* S S' \<Longrightarrow> sys_reaches K S0 S'"
    by (meson rtranclp_trans)
qed

lemma config_late: "(other_step K Config_part)\<^sup>*\<^sup>* S S' \<Longrightarrow> (late_step K)\<^sup>*\<^sup>* S S'"
  by (rule rtranclp_mono [THEN predicate2D, rotated]) (auto simp: late_step_def)

text \<open>A step beside the callback.\<close>

lemma behind_other:
  assumes "other_step K i S S'" and "behind K S0 S g"
  shows "behind K S0 S' g"
proof (cases g)
  case Polling
  then show ?thesis
    using assms(2) other_is_step [OF assms(1)] by (auto simp: behind_def intro: rtranclp.rtrancl_into_rtrancl)
next
  case Filtered
  then obtain S1 e where b: "sys_reaches K S0 S1" "filter_passes e S1" "(other_step K Config_part)\<^sup>*\<^sup>* S1 S" "current S e"
    using assms(2) by (auto simp: behind_def)
  have c: "current S' e" using other_current [OF assms(1) b(4)] .
  show ?thesis
  proof (cases "i = Config_part")
    case True
    then have "(other_step K Config_part)\<^sup>*\<^sup>* S1 S'" using b(3) assms(1) by (simp add: rtranclp.rtrancl_into_rtrancl)
    then show ?thesis using b c Filtered by (auto simp: behind_def)
  next
    case False
    obtain S2 where w: "other_step K i S1 S2" "(other_step K Config_part)\<^sup>*\<^sup>* S2 S'"
      using beforeD [OF before_star [OF other_before_other] b(3) assms(1)] False by blast
    have "sys_reaches K S0 S2" using b(1) other_is_step [OF w(1)] by (rule rtranclp.rtrancl_into_rtrancl)
    then show ?thesis using w c other_filter_passes [OF w(1) False b(2)] Filtered by (auto simp: behind_def)
  qed
next
  case (Sent r)
  then obtain S1 S2 e E where b: "sys_reaches K S0 S1" "filter_passes e S1" "send_step E e r S1 S2"
      "(late_step K)\<^sup>*\<^sup>* S2 S" "current S e"
    using assms(2) by (auto simp: behind_def)
  have c: "current S' e" using other_current [OF assms(1) b(5)] .
  show ?thesis
  proof (cases "i = Queue_part")
    case False
    then have "(late_step K)\<^sup>*\<^sup>* S2 S'"
      using b(4) assms(1) by (meson late_step_def rtranclp.rtrancl_into_rtrancl)
    then show ?thesis using b c Sent by (auto simp: behind_def)
  next
    case True
    obtain T2 where w: "other_step K Queue_part S2 T2" "(late_step K)\<^sup>*\<^sup>* T2 S'"
      using beforeD [OF late_movers(1) b(4)] assms(1) True by blast
    obtain T1 where v: "other_step K Queue_part S1 T1" "send_step E e r T1 T2"
      using beforeD [OF request_before_send b(3) w(1)] by blast
    have "sys_reaches K S0 T1" using b(1) other_is_step [OF v(1)] by (rule rtranclp.rtrancl_into_rtrancl)
    then show ?thesis using w v c other_filter_passes [OF v(1) _ b(2)] Sent by (auto simp: behind_def)
  qed
qed (use assms(2) in \<open>simp add: behind_def\<close>)

lemma handled_returned:
  "handled (Returned r) (S\<lparr>sy_obj := q\<rparr>) = S\<lparr>sy_done := sy_done S + 1, sy_obj := q\<rparr>"
  by (simp add: handled_def)

text \<open>A section of the callback.\<close>

lemma behind_section:
  assumes "sy_alive S" and "env_ok E" and "en_map E = map_of (tr_exec (sy_tracer S))"
    and "sy_done S < length (tr_events (sy_tracer S))"
    and run: "next_section E (tr_events (sy_tracer S) ! sy_done S) g (sy_obj S) = Some (Inr g', q, l)"
    and "behind K S0 S g"
  shows "behind K S0 (handled g' (S\<lparr>sy_obj := q\<rparr>)) (settled g')"
proof (cases g)
  case Polling
  then have S: "sys_reaches K S0 S" using assms(6) by (simp add: behind_def)
  have "g' = Filtered \<and> q = sy_obj S \<and> filter_passes (tr_events (sy_tracer S) ! sy_done S) S \<or> g' = Returned 0"
    using run Polling assms(1,4)
    by (auto simp: next_section_def filter_passes_def current_def split: sum.splits bool.splits if_splits)
  then show ?thesis
  proof (elim disjE conjE)
    assume "g' = Filtered" "q = sy_obj S" "filter_passes (tr_events (sy_tracer S) ! sy_done S) S"
    then show ?thesis
      using S by (auto simp: behind_def handled_def settled_def filter_passes_def)
  next
    assume "g' = Returned 0"
    then have "sys_step K S (S\<lparr>sy_done := sy_done S + 1, sy_obj := q\<rparr>)"
      using filter_is_callback [OF assms(1-4)] run Polling by simp
    then have "sys_reaches K S0 (S\<lparr>sy_done := sy_done S + 1, sy_obj := q\<rparr>)"
      using S by (simp add: rtranclp.rtrancl_into_rtrancl)
    then show ?thesis unfolding \<open>g' = _\<close> handled_returned by (simp add: behind_def settled_def)
  qed
next
  case Filtered
  then obtain S1 e where b: "sys_reaches K S0 S1" "filter_passes e S1" "(other_step K Config_part)\<^sup>*\<^sup>* S1 S" "current S e"
    using assms(6) by (auto simp: behind_def)
  obtain r where g': "g' = Sent r" and "send E e (sy_obj S) = Some (Inr r, q, l)"
    using run Filtered b(4) by (auto simp: next_section_def current_def split: option.splits sum.splits)
  then have "send_step E e r S (S\<lparr>sy_obj := q\<rparr>)" using assms(2,3) by (simp add: send_step_def)
  then obtain S2 where "send_step E e r S1 S2" "(other_step K Config_part)\<^sup>*\<^sup>* S2 (S\<lparr>sy_obj := q\<rparr>)"
    using beforeD [OF before_star [OF send_before_config] b(3)] by blast
  moreover from this(2) have "(late_step K)\<^sup>*\<^sup>* S2 (S\<lparr>sy_obj := q\<rparr>)" by (rule config_late)
  moreover have "current (S\<lparr>sy_obj := q\<rparr>) e" using b(4) by (simp add: current_def)
  ultimately show ?thesis
    using b(1,2) by (auto simp: behind_def g' handled_def settled_def)
next
  case (Sent r)
  then obtain S1 S2 e E' where b: "sys_reaches K S0 S1" "filter_passes e S1" "send_step E' e r S1 S2"
      "(late_step K)\<^sup>*\<^sup>* S2 S" "current S e"
    using assms(6) by (auto simp: behind_def)
  have g': "g' = Returned r" and "cache_event e (sy_obj S) = Inr (q, l)"
    using run Sent b(5) by (auto simp: next_section_def current_def split: sum.splits)
  then have "cache_step e S (S\<lparr>sy_done := sy_done S + 1, sy_obj := q\<rparr>)" by (auto simp: cache_step_def)
  then obtain S3 where "cache_step e S2 S3" "(late_step K)\<^sup>*\<^sup>* S3 (S\<lparr>sy_done := sy_done S + 1, sy_obj := q\<rparr>)"
    using beforeD [OF late_movers(2) b(4)] by blast
  then have "sys_reaches K S0 (S\<lparr>sy_done := sy_done S + 1, sy_obj := q\<rparr>)"
    using reaches_steps rtranclp.rtrancl_into_rtrancl [OF b(1) sections_are_callback [OF b(2,3)]] by blast
  then show ?thesis unfolding g' handled_returned by (simp add: behind_def settled_def)
qed (use assms(6) in \<open>simp add: behind_def\<close>)

lemma behind_step:
  assumes "fine_step K (S, g) (S', g')" and "sy_alive S'" and "sy_alive S \<longrightarrow> behind K S0 S g"
  shows "behind K S0 S' g'"
  using assms(1)
proof (cases rule: fine_stepE [consumes 1])
  case (1 i T)
  then show ?thesis using assms(2,3) behind_other other_alive by (metis prod.inject)
next
  case (2 E h q l)
  then show ?thesis using assms(3) behind_section [OF 2(2,3,4,5,6)] by simp
next
  case (3 E x q l)
  then show ?thesis using assms(2) by simp
qed

lemma fine_behind:
  assumes "fine_reaches K (S0, Polling) (S, g)" and "sy_alive S"
  shows "behind K S0 S g"
proof -
  have "fine_reaches K (S0, Polling) c \<Longrightarrow> sy_alive (fst c) \<longrightarrow> behind K S0 (fst c) (snd c)" for c
  proof (induction rule: rtranclp_induct)
    case (step c d)
    then show ?case using behind_step by (metis prod.collapse)
  qed (simp add: behind_def)
  from this [OF assms(1)] assms(2) show ?thesis by simp
qed

text \<open>What the requests for events see.\<close>

definition handed_out :: "system \<Rightarrow> nat \<times> (http_request \<times> response) list \<times> json list" where
  "handed_out S = (sy_done S, sy_event_answers S, pd_event_queue (sy_obj S))"

lemma stays_handed_out:
  assumes "stays_in copy_part i R" and "i \<noteq> Queue_part" and "R S S'"
  shows "handed_out S' = handed_out S"
proof -
  have "S' = copy_part i S' S" using assms(1,3) by (simp add: stays_in_def)
  moreover have "handed_out (copy_part i S' S) = handed_out S"
    using assms(2) by (cases i) (simp_all add: handed_out_def)
  ultimately show ?thesis by simp
qed

lemma late_handed_out: "(late_step K)\<^sup>*\<^sup>* S S' \<Longrightarrow> handed_out S' = handed_out S"
  by (induction rule: rtranclp_induct) (auto simp: late_step_def dest: stays_handed_out [OF other_stays])

lemma behind_handed_out:
  assumes "behind K S0 S g"
  shows "\<exists>S1. sys_reaches K S0 S1 \<and> handed_out S1 = handed_out S"
proof (cases g)
  case Filtered
  then show ?thesis using assms by (auto simp: behind_def dest!: config_late late_handed_out)
next
  case (Sent r)
  then show ?thesis
    using assms stays_handed_out [OF send_stays] by (auto simp: behind_def dest!: late_handed_out)
qed (use assms in \<open>auto simp: behind_def\<close>)

section \<open>A run with an update in the middle\<close>

lemma reported_is_sent:
  assumes "object_ok p" and "env_ok E" and "en_curl_init E" and "reportable p e"
    and "generate_proc_trace E (ev_pid e) = Some (Inr (js, lt))" and "json_utf8 (document_of E p e js)"
  shows "\<exists>q l. send E e p = Some (Inr 0, q, l)"
proof -
  have "json_ok (en_json E)" using assms(2) by (simp add: env_ok_def)
  then obtain data where "j_dump (en_json E) None (document_of E p e js) = Inr data" "data \<noteq> []"
    using json_ok_dump assms(6) by blast
  moreover obtain X where "pd_exporter p = Some X" using assms(1) by (auto simp: object_ok_def)
  ultimately show ?thesis using send_ok [OF reportable_known [OF assms(4)] _ assms(5) _ _ assms(3)] by blast
qed

lemma update_between_sections:
  assumes "current S e" and "sy_alive S" and "object_ok (sy_obj S)" and "pd_publish (sy_obj S)"
    and "pd_cache_data (sy_obj S)" and "env_ok E" and "en_map E = map_of (tr_exec (sy_tracer S))"
    and "event_wf e" and "counts (sy_obj S) e" and "send E e (sy_obj S) = Some (Inr r, q, l)"
  shows "\<exists>S' res. fine_reaches K (S, Polling) (S', Polling) \<and> sy_alive S' \<and>
    sy_config_answers S' = sy_config_answers S @ [(Post_filetrace body, res)] \<and>
    last (pd_event_queue (sy_obj S')) = event_obj e"
proof -
  let ?p = "sy_obj S" and ?r = "Post_filetrace body"
  have r: "\<not> is_event_request ?r" by (simp add: is_event_request_def)
  obtain res f p' l' where serve: "serve J ?r (sy_fs S) ?p = (res, f, p', l')" by (metis prod_cases4)
  note keeps = serve_keeps [OF assms(3) serve]
  obtain c d where p': "p' = ?p\<lparr>pd_conf_list := c, pd_config_json_obj := d\<rparr>"
    using config_request_writes [OF r serve] by blast
  obtain q' where send: "send E e p' = Some (Inr r, q', l)"
    using assms(10) by (simp add: p' send_frame_other(2))
  note sent = send_keeps [OF keeps(1) assms(6) send]
  have cd: "pd_cache_data q'" using keeps(5) assms(5) send_frame [OF send] by simp
  have k: "known_call e" using assms(9) by (auto simp: counts_def dest: reportable_known)
  obtain q2 l2 where cache: "cache_event e q' = Inr (q2, l2)"
    using cache_event_known [OF k, of q'] sent by (auto simp: object_ok_def)
  have last: "last (pd_event_queue q2) = event_obj e"
    using cache_event_keeps [OF _ k cache] sent cd by (auto simp: pushed_def object_ok_def queue_inv_def last_drop)
  obtain l1 where v: "is_valid_event e ?p = Inr (True, l1)"
    using is_valid_event_reportable [OF assms(8)] assms(9) by (metis counts_def)
  let ?A = "(noted ?r res S)\<lparr>sy_fs := f, sy_obj := p'\<rparr>"
  have e: "tr_events (sy_tracer S) ! sy_done S = e" "sy_done S < length (tr_events (sy_tracer S))"
    using assms(1) by (simp_all add: current_def)
  have 1: "fine_step K (S, Polling) (S, Filtered)"
    using callback_section [OF assms(2,6,7) e(2), of Polling Filtered ?p] v assms(9)
    by (simp add: e(1) next_section_def counts_def handled_def settled_def)
  have 2: "fine_step K (S, Filtered) (?A, Filtered)"
    by (rule fine_step.other [OF config_request [OF assms(2,4) r serve]])
  have 3: "fine_step K (?A, Filtered) (?A\<lparr>sy_obj := q'\<rparr>, Sent r)"
    using callback_section [of ?A E Filtered "Sent r" q' l K] assms(2,6,7) e send
    by (simp add: next_section_def handled_def settled_def)
  have 4: "fine_step K (?A\<lparr>sy_obj := q'\<rparr>, Sent r) (?A\<lparr>sy_obj := q2, sy_done := sy_done S + 1\<rparr>, Polling)"
    using callback_section [of "?A\<lparr>sy_obj := q'\<rparr>" E "Sent r" "Returned r" q2 l2 K] assms(2,6,7) e cache
    by (simp add: next_section_def handled_def settled_def)
  from 1 2 3 4 have "fine_reaches K (S, Polling) (?A\<lparr>sy_obj := q2, sy_done := sy_done S + 1\<rparr>, Polling)"
    by (meson converse_rtranclp_into_rtranclp rtranclp.rtrancl_refl)
  then show ?thesis
    using last assms(2) noted_config [OF r] by fastforce
qed

end
