(* ===== verification/Spec2Isabelle.thy ===== *)
theory Spec2Isabelle
  imports Interleave
begin

text \<open>
  gala-filetrace watches the files named in its configuration. BPF programs in the kernel
  (\<open>src/filetrace.bpf.c\<close>) send an event for every write, copy, rename and unlink over a ring buffer;
  a daemon (\<open>src/filetrace.cpp\<close>, \<open>src/post.cpp\<close>, \<open>src/exporter.cpp\<close>, \<open>src/logger.cpp\<close>) filters the
  events, follows the ancestors of the process, updates metrics, publishes a document and keeps the
  latest events for an HTTP interface. This library models those files; the theorems named in the texts
  that begin with a claim number are its properties.

  \<^bold>\<open>The parts, and where they are.\<close>

  \<^item> \<open>Prelude\<close>: facts about lists, joining and splitting. \<open>Cxx\<close>: the failures, \<open>std::string\<close> operations,
    character buffers, decimal conversions, streams and ordered maps the source uses.
  \<^item> \<open>Event\<close>: \<open>src/include/filetrace.h\<close>, the records shared by both sides, with their buffer sizes.
  \<^item> \<open>Kernel\<close>: \<open>src/filetrace.bpf.c\<close>. One definition per program and helper (\<open>walk_up\<close> is the unrolled loop of
    \<open>fill_parent_dirs\<close> and \<open>fill_dir_chain\<close>); \<open>tracer\<close> is the state of the BPF side: the own process id, the
    events sent, the number of reserved records, \<open>exec_map\<close>. \<open>bpf_step\<close>: any task runs any program. The
    two variants of the write program that the kernel version selects are both there.
  \<^item> \<open>Utf8\<close>, \<open>Paths\<close>, \<open>Parsing\<close>: the text functions of \<open>post.cpp\<close> and the two copies of \<open>get_full_path\<close>.
  \<^item> \<open>Capture\<close>: what the directory names the kernel side stores mean for the path user space rebuilds, and
    for the real path, which goes through the place where the file system is mounted (\<open>mount\<close>).
  \<^item> \<open>Files\<close>, \<open>Logger\<close>, \<open>Effects\<close>: the file system as names, inodes, contents and free room; \<open>logger.cpp\<close>;
    log lines, output, HTTP posts as values.
  \<^item> \<open>Json\<close>, \<open>Post\<close>, \<open>Config\<close>, \<open>Reload\<close>: JSON values, the members of \<open>PostData\<close>, \<open>load_config\<close> statement by
    statement (\<open>run_steps\<close>: a statement goes on, returns or throws), \<open>update_config\<close> and its request.
  \<^item> \<open>EventFilter\<close>, \<open>ProcTrace\<close>, \<open>Exporter\<close>, \<open>EventQueue\<close>, \<open>Dispatch\<close>: an event on its way through \<open>process_event\<close>:
    \<open>is_valid_event\<close>, \<open>generate_proc_trace\<close>, \<open>set_metrics\<close> and the cleaning thread, \<open>cache_event\<close> and
    the request that reads the queue, \<open>send\<close>, \<open>handle_event\<close>.
  \<^item> \<open>Daemon\<close>: the constructor and destructor of \<open>PostData\<close>, \<open>main\<close>, the signal handler, the HTTP routes and
    the detached thread that serves them (\<open>ps_server\<close>).
  \<^item> \<open>System\<close>: all of it as one step relation \<open>sys_step\<close>; a step is one BPF program, one event in the
    callback, one request or one round of the cleaning thread. The callback looks processes up in the
    table the BPF side fills.
  \<^item> \<open>Interleave\<close>: the callback as it really runs, section by section (\<open>next_section\<close>), with requests, rounds
    and programs between the sections, each mutex and what it protects a part of the state (\<open>copy_part\<close>).

  A function that may throw has the exception, or undefined behaviour, as a value of \<open>fault + 'a\<close>; where it
  changed the object before, the object is returned beside it. A function that may not return, because
  the walk to the ancestors may not, is an \<open>option\<close>: \<open>None\<close> is the run that never ends.

  \<^bold>\<open>Interfaces.\<close> \<open>file_store\<close> (Files), \<open>path_rebuilder\<close> (Paths, twice), \<open>expiring_cache\<close> (Exporter),
  \<open>bounded_fifo\<close> (EventQueue), \<open>gatekeeper\<close> (Dispatch) and \<open>parts\<close> (Interleave) state what the rest relies on;
  each is interpreted on the program's own operations.

  \<^bold>\<open>What is shown.\<close> For the BPF side: no record leaks, every record is well formed, none is caused by
  the daemon, the process table only grows. Between the two sides: exactly which files are sent with
  their real path, and that none below a mount point is. For each event: what is accepted, that a rejected one has no effect, that an accepted
  one is counted, published once and queued. For the queue and the metrics: the contracts above, the
  life time of a gauge. For the configuration: what a load guarantees, that an update is all or nothing on
  disk and reads back. For the process trace: that it lists the ancestors (\<open>has_parent\<close>, said without the
  code) and returns unless they form a cycle. For the whole: an invariant of all reachable states, a
  simulation of the abstract monitor \<open>mon_step\<close>, which counts, queues and hands out with answers, that every interleaving of the threads with the sections of the callback is
  equivalent to one with an atomic callback, the way of a change from the task to the document, what \<open>main\<close> holds and releases.
  Properties of kind error show where the code does not do what it means to: exceptions that end the
  daemon (an empty line of \<open>/proc\<close>, a command name that is not UTF-8, a bad configuration), events and
  backups that are lost, renames that are missed, deep paths that collide, unlinks attributed to root, a
  reused process id that makes the callback run for ever, a server that outlives the object it serves.

  \<^bold>\<open>Parameters.\<close> The JSON library (\<open>json_ok\<close>: printing and parsing are inverse on values of the
  library, printing fails exactly on text that is not UTF-8; the error for a number too large to read,
  \<open>out_of_range.406\<close>, is not among its failures), the metrics library (\<open>prom_ok\<close>: adding,
  removing and setting a series), the kernel's data (\<open>kernel\<close>, \<open>task\<close>), the system's answers (\<open>env\<close>,
  \<open>platform\<close>). Each hypothesis is satisfied by a concrete instance in a witness.

  \<^bold>\<open>Bounds.\<close> No fuel is used: the loops over directories are bounded by \<open>MAX_DEPTH\<close>, the walk to the
  ancestors is \<open>partial_function (option)\<close> with its termination characterised, the polling loop and the
  rounds of the cleaning thread run over a list of inputs. \<open>run_sections\<close> counts sections, and three of them
  are all of \<open>process_event\<close>. Sizes wrap at 64 bits, identifiers are words.

  \<^bold>\<open>Not modelled.\<close> Mounts other than of a whole file system (bind mounts), and mount namespaces and changed
  root directories, by which tasks have other paths; the programs read nothing of them. A stream that
  stays bad after a short write: what one write may store, \<open>fs_room\<close>, is the same for each. The internals
  of libbpf, curl, httplib, prometheus-cpp and the JSON library, data races
  inside a critical section, changes of the process table during one walk to the ancestors, the lock of
  the logger, the wrappers of the exporter nobody calls, debug output, the log files as
  part of the file system the configuration lives in, tests, build and packaging.
\<close>

section \<open>From a change of a file to its report\<close>

lemma modification_is_reportable:
  assumes "modifies t h file" and "regular_at K file ds f" and "fits_event ds f"
    and "hook_record K t h zero_event = Some e" and "tk_tgid t \<noteq> 0" and "hd f \<noteq> CHR ''.''"
    and "abs_path ds f \<in> set (pd_conf_list p)"
    and "\<forall>s \<in> set (pd_skip_processes p). take 15 s \<noteq> take 15 (base_name (cstr (tk_comm t)))"
  shows "reportable p e" and "fst (get_full_path e) = abs_path ds f"
proof -
  have ps: "\<forall>c \<in> set ds. proper c" "proper f" using assms(2) by (simp_all add: regular_at_def)
  have e: "fst (get_full_path e) = seen_path ds f" "ev_flag e \<in> {flag_code SYS_write, flag_code SYS_copy_file_range}"
    "ev_pid e = tk_tgid t" "ev_cmd e = tk_comm t" "ev_filename e = to_buf MAX_FILENAME_LEN f"
    using modification_record [OF assms(1,2)] assms(4) by auto
  show path: "fst (get_full_path e) = abs_path ds f"
    using e(1) seen_path_abs_iff [OF ps] assms(3) by simp
  have "cstr (ev_filename e) = f"
    using e(5) cstr_proper [OF ps(2)] assms(3) by (simp add: cstr_to_buf fits_event_def MAX_FILENAME_LEN_def)
  moreover have "f \<noteq> []" using ps(2) by (simp add: proper_def clean_def)
  ultimately have "is_valid_filename (cstr (ev_filename e))" using assms(6) by (simp add: is_valid_filename_def)
  moreover have "event_path e = Some (abs_path ds f)"
    using e(2) path by (cases "get_full_path e") (auto simp: event_path_def compared_path_def)
  moreover have "watched p (abs_path ds f)" using assms(7) by (simp add: watched_def abs_path_def)
  ultimately show "reportable p e"
    using assms(5,8) e(3,4) by (auto simp: reportable_def skipped_def)
qed

lemma reportable_is_processed:
  assumes "object_ok p" and "env_ok E" and "en_curl_init E" and "event_wf e" and "reportable p e" and "\<not> pd_verbose p"
    and "generate_proc_trace E (ev_pid e) = Some (Inr (js, lt))" and "json_utf8 (document_of E p e js)"
  shows "\<exists>data q l. process_event E e p = Some (Inr 0, q, l) \<and>
    j_dump (en_json E) None (document_of E p e js) = Inr data \<and>
    posts l = (if pd_publish p then [(pd_ragdoll_api p, data)] else [])"
proof -
  have J: "json_ok (en_json E)" using assms(2) by (simp add: env_ok_def)
  have k: "known_call e" using assms(5) by (rule reportable_known)
  obtain X where X: "pd_exporter p = Some X" using assms(1) by (auto simp: object_ok_def)
  obtain data where data: "j_dump (en_json E) None (document_of E p e js) = Inr data" "data \<noteq> []"
    using json_ok_dump [OF J] assms(8) by blast
  from send_ok [OF k X assms(7) data assms(3)] obtain Y l where
    s: "send E e p = Some (Inr 0, p\<lparr>pd_exporter := Some Y\<rparr>, l)"
    "posts l = (if pd_publish p then [(pd_ragdoll_api p, data)] else [])" by blast
  have "pd_cache_data (p\<lparr>pd_exporter := Some Y\<rparr>) \<longrightarrow> queue_inv (p\<lparr>pd_exporter := Some Y\<rparr>)"
    using assms(1) by (simp add: object_ok_def queue_inv_def)
  from cache_event_known [OF k this] obtain q l3 where
    c: "cache_event e (p\<lparr>pd_exporter := Some Y\<rparr>) = Inr (q, l3)" "posts l3 = []" by blast
  from process_event_sends(3) [OF assms(4,5,6) s(1) c(1)] s(2) c(2) data(1) show ?thesis by auto
qed

section \<open>Properties\<close>

text \<open>The event of the sample task writing \<open>/etc/hosts\<close>.\<close>

definition sample_write :: event where
  "sample_write = the (hook_record sample_tree sample_task (Write 1) zero_event)"

lemma sample_write_record: "hook_record sample_tree sample_task (Write 1) zero_event = Some sample_write"
  using modification_record [OF sample_modifies sample_regular] by (auto simp: sample_write_def)

lemma sample_fits: "fits_event [''etc''] ''hosts''"
  by (simp add: fits_event_def size_consts)

lemma sample_write_fields:
  "fst (get_full_path sample_write) = ''/etc/hosts''" "ev_flag sample_write \<in> {1, 5}" "ev_pid sample_write = 100"
  "ev_uid sample_write = 1000" "ev_gid sample_write = 1000" "cstr (ev_cmd sample_write) = ''bash''"
  using modification_record [OF sample_modifies sample_regular] sample_write_record
    seen_path_abs_iff [of "[''etc'']" "''hosts''"] sample_fits
  by (auto simp: sample_task_def sample_proper abs_path_def)

lemma sample_write_document: "json_utf8 (document_of no_procs daemon sample_write [])"
proof -
  have z: "to_string_u (1000 :: u32) = ''1000''"
    by (simp add: to_string_u_def dec_of_nat.simps digit_char_def)
  have u: "get_username_by_uid no_procs 1000 = ''1000''"
    "get_groupname_by_gid no_procs 1000 = ''1000''"
    "get_loginip_by_username no_procs ''1000'' = ''127.0.0.1''"
    using z by (simp_all add: get_username_by_uid_def get_groupname_by_gid_def
        get_loginip_by_username_def no_procs_def map_env_def)
  have f: "fst (published_file sample_write) = ''/etc/hosts''"
    using sample_write_fields(2) by (auto simp: published_file_def sample_write_fields(1))
  have d: "pd_host_id daemon = ''h1''" "pd_domain_name daemon = ''dom''" "pd_cluster_id daemon = []"
    by (simp_all add: daemon_def sample_object_def)
  have n: "nr_map ! nat (ev_flag sample_write) \<in> {''sys_enter_write'', ''sys_enter_copy_file_range''}"
    using sample_write_fields(2) by (auto simp: nr_map_def)
  show ?thesis
    unfolding document_of_def event_document_def f
    by (simp only: Let_def u d sample_write_fields, rule obj_of_utf8)
      (use n in \<open>auto simp: strict_utf8_ascii ascii_def byte_of_def\<close>)
qed

lemma daemon_object: "object_ok daemon" "counted daemon = Some 0" "pd_event_queue daemon = []" "pd_cache_data daemon"
  using daemon_queue
  by (simp_all add: object_ok_def counted_def new_exporter_def ex_inv_def) (simp add: daemon_def)

lemma daemon_size: "pd_max_event_queue_size daemon = 1000"
  by (simp add: daemon_def sample_object_def)

lemma process_event_switches:
  assumes "process_event E e p = Some (Inr r, q, l)"
  shows "pd_cache_data q = pd_cache_data p \<and> pd_publish q = pd_publish p"
proof -
  have "q = p \<or> (\<exists>n q1 l1 l2. send E e p = Some (Inr n, q1, l1) \<and> cache_event e q1 = Inr (q, l2))"
    using assms by (auto simp: process_event_def split: sum.splits option.splits prod.splits if_splits bool.splits)
  moreover have "pd_cache_data q1 = pd_cache_data p \<and> pd_publish q1 = pd_publish p"
    if "send E e p = Some (Inr n, q1, l1)" for n q1 l1 using send_exporter [OF that] by auto
  moreover have "pd_cache_data q = pd_cache_data q1 \<and> pd_publish q = pd_publish q1"
    if "cache_event e q1 = Inr (q, l2)" for q1 l2
    using that by (auto simp: cache_event_def Let_def split: if_splits sum.splits)
  ultimately show ?thesis by metis
qed

lemma no_procs_ok: "env_ok no_procs"
  by (simp add: env_ok_def no_procs_env num_json_ok) (simp add: no_procs_def map_env_def list_prom_ok)

text \<open>C1: End to end. Take any state of the system that satisfies its invariant, with the daemon
  alive, not in verbose mode and done with the events sent so far, and a task other than the daemon,
  with a pid, that writes to or copies over a configured regular file: the file is on the root file
  system, at most four directories deep with names that fit an event, its own name does not begin
  with a dot, and the task's command is not on the list of skipped processes. When the ring buffer
  has room, the HTTP client can be set up, the libraries behave as documented, the walk to the
  ancestors returns without an exception and the document is UTF-8, then the program that runs and
  the callback after it return normally: they publish exactly one document if publishing is enabled
  and none otherwise, count the event once and, when the daemon caches, queue it last; the path in
  the document is the real path of the file.\<close>

theorem modification_is_reported_end_to_end:
  assumes "system_ok self S" and "sy_alive S" and "sy_done S = length (tr_events (sy_tracer S))"
    and "task_ok t" and "tk_tgid t \<noteq> 0" and "tk_tgid t \<noteq> self"
    and "modifies t h file" and "regular_in K M file ds f" and "mt_point M = []" and "fits_event ds f" and "hd f \<noteq> CHR ''.''"
    and "hook_record K t h zero_event = Some e"
    and "real_path M ds f \<in> set (pd_conf_list (sy_obj S))" and "\<not> pd_verbose (sy_obj S)"
    and "\<forall>s \<in> set (pd_skip_processes (sy_obj S)). take 15 s \<noteq> take 15 (base_name (cstr (tk_comm t)))"
    and "env_ok E" and "en_curl_init E" and "generate_proc_trace E (tk_tgid t) = Some (Inr (js, lt))"
    and "en_map E = map_of (tr_exec (sy_tracer S))" and "json_utf8 (document_of E (sy_obj S) e js)"
  shows "\<exists>S1 S2 q l data. sys_step K S S1 \<and> sys_step K S1 S2 \<and> sy_alive S2 \<and>
    sy_tracer S1 = run_hook K True t h (sy_tracer S) \<and> sy_obj S2 = q \<and>
    handle_event E (Some e) sizeof_event (Some (sy_obj S)) = Some (Inr 0, Some q, l) \<and>
    posts l = (if pd_publish (sy_obj S) then [(pd_ragdoll_api (sy_obj S), data)] else []) \<and>
    j_dump (en_json E) None (document_of E (sy_obj S) e js) = Inr data \<and>
    fst (published_file e) = real_path M ds f \<and> counted q = map_option Suc (counted (sy_obj S)) \<and>
    (pd_cache_data (sy_obj S) \<longrightarrow> last (pd_event_queue q) = event_obj e)"
proof -
  let ?T = "sy_tracer S" and ?p = "sy_obj S"
  let ?S1 = "S\<lparr>sy_tracer := run_hook K True t h ?T\<rparr>"
  note path = real_path_root [OF assms(9)] and reg = regular_in_at [OF assms(8)]
  have ok: "object_ok ?p" and self: "tr_self ?T = self"
    using assms(1,2) by (simp_all add: system_ok_def tracer_ok_def)
  have rep: "reportable ?p e" "fst (get_full_path e) = abs_path ds f"
    using modification_is_reportable [OF assms(7) reg assms(10,12,5,11) _ assms(15)] assms(13) by (simp_all add: path)
  have run: "run_hook K True t h ?T = ?T\<lparr>tr_events := tr_events ?T @ [e]\<rparr>"
    using run_hook_sent [of h t ?T K e] modifies_reports [OF assms(7)] assms(6,12) self by simp
  have wf: "event_wf e" and pid: "ev_pid e = tk_tgid t"
    using hook_record_wf [OF assms(4,12)] hook_record_pid [OF assms(12)] by simp_all
  obtain data q l where P: "process_event E e ?p = Some (Inr 0, q, l)"
    and dump: "j_dump (en_json E) None (document_of E ?p e js) = Inr data"
    and posts: "posts l = (if pd_publish ?p then [(pd_ragdoll_api ?p, data)] else [])"
    using reportable_is_processed [OF ok assms(16,17) wf rep(1) assms(14)] assms(18,20) pid by auto
  then have H: "handle_event E (Some e) sizeof_event (Some ?p) = Some (Inr 0, Some q, l)"
    by (simp add: handle_event_def)
  have "sys_step K ?S1 (?S1\<lparr>sy_done := sy_done ?S1 + 1, sy_obj := q\<rparr>)"
    using assms(2,3,16,19) H by (intro callback) (simp_all add: run nth_append)
  moreover have "sys_step K S ?S1" using assms(4) by (rule bpf_program)
  moreover have "counts ?p e" using rep(1) assms(14) by (simp add: counts_def)
  then have "counted q = map_option Suc (counted ?p)" and "pd_event_queue q = pushed ?p e"
    using process_event_keeps [OF ok assms(16) wf P] by simp_all
  moreover have "pd_cache_data ?p \<longrightarrow> last (pushed ?p e) = event_obj e"
    using ok by (auto simp: pushed_def object_ok_def queue_inv_def last_drop)
  moreover have "ev_flag e \<in> {flag_code SYS_write, flag_code SYS_copy_file_range}"
    using modification_record [OF assms(7) reg] assms(12) by auto
  then have "fst (published_file e) = real_path M ds f" using rep(2) by (auto simp: published_file_def path)
  ultimately show ?thesis
    using assms(2) H dump posts
    by (intro exI [of _ ?S1] exI [of _ "?S1\<lparr>sy_done := sy_done ?S1 + 1, sy_obj := q\<rparr>"] exI [of _ q] exI [of _ l]
        exI [of _ data]) simp
qed

theorem modification_is_reported_end_to_end_witness:
  "\<exists>S2 data. sys_reaches sample_tree (started 7 (sample_fs 0) daemon) S2 \<and> counted (sy_obj S2) = Some 1 \<and>
    last (pd_event_queue (sy_obj S2)) = event_obj sample_write \<and>
    j_dump num_json None (document_of no_procs daemon sample_write []) = Inr data"
proof -
  let ?S = "started 7 (sample_fs 0) daemon"
  obtain lt where "generate_proc_trace no_procs 100 = Some (Inr ([], lt))" using trace_no_procs by blast
  then have trace: "generate_proc_trace no_procs (tk_tgid sample_task) = Some (Inr ([], lt))"
    by (simp add: sample_task_def)
  have S: "sy_obj ?S = daemon" "sy_alive ?S" "sy_done ?S = length (tr_events (sy_tracer ?S))"
    by (simp_all add: started_def loaded_def)
  have skip: "\<forall>s \<in> set (pd_skip_processes (sy_obj ?S)).
      take 15 s \<noteq> take 15 (base_name (cstr (tk_comm sample_task)))"
    by (simp add: S(1)) (simp add: daemon_def sample_object_def)
  have "\<exists>S1 S2 q l data. sys_step sample_tree ?S S1 \<and> sys_step sample_tree S1 S2 \<and> sy_alive S2 \<and>
    sy_tracer S1 = run_hook sample_tree True sample_task (Write 1) (sy_tracer ?S) \<and> sy_obj S2 = q \<and>
    handle_event no_procs (Some sample_write) sizeof_event (Some (sy_obj ?S)) = Some (Inr 0, Some q, l) \<and>
    posts l = (if pd_publish (sy_obj ?S) then [(pd_ragdoll_api (sy_obj ?S), data)] else []) \<and>
    j_dump (en_json no_procs) None (document_of no_procs (sy_obj ?S) sample_write []) = Inr data \<and>
    fst (published_file sample_write) = real_path root_mount [''etc''] ''hosts'' \<and>
    counted q = map_option Suc (counted (sy_obj ?S)) \<and>
    (pd_cache_data (sy_obj ?S) \<longrightarrow> last (pd_event_queue q) = event_obj sample_write)"
    by (rule modification_is_reported_end_to_end [OF started_ok [OF daemon_object(1,3,2)] S(2,3) sample_task_ok
          _ _ sample_modifies sample_in(1) _ sample_fits _ sample_write_record _ _ skip no_procs_ok
          no_procs_env(2) trace])
      (simp_all add: S(1) sample_write_document real_path_def abs_path_def root_mount_def sample_task_def,
        simp add: no_procs_def map_env_def started_def loaded_def)
  then show ?thesis
    by (simp add: S(1) daemon_object(2,4) no_procs_env(1))
      (meson converse_rtranclp_into_rtranclp r_into_rtranclp)
qed

text \<open>C6: The daemon implements an abstract monitor that handles the events sent one by one, in
  order: as long as the daemon lives and caches, every step of the system either handles the next
  event, counting it and queueing its document, with the oldest dropped when the queue is full, if
  it is to be reported, and changing nothing else if not; or takes as many documents as a request
  asks for off the queue, oldest first, and answers with exactly these: 204 when there is none, 200
  with the documents, 500 when their texts are not UTF-8; or changes none of it.\<close>

theorem system_refines_monitor:
  assumes "object_ok p" and "pd_event_queue p = []" and "counted p = Some 0" and "json_ok J"
    and "sys_reaches K (started self f p) S" and "sys_step_with J K S S'" and "sy_alive S'"
    and "pd_cache_data (sy_obj S)"
  shows "mon_step J (tr_events (sy_tracer S)) (counts (sy_obj S)) (pd_max_event_queue_size (sy_obj S))
    (monitor_of S) (monitor_of S')"
  using simulation [OF assms(6,4) system_ok_reaches [OF assms(5) started_ok [OF assms(1-3)]] assms(7,8)] .

definition sample_sent :: system where
  "sample_sent = (started 7 (sample_fs 0) daemon)\<lparr>sy_tracer := (loaded 7)\<lparr>tr_events := [sample_write]\<rparr>\<rparr>"

lemma sample_sent_reached: "sys_step sample_tree (started 7 (sample_fs 0) daemon) sample_sent"
proof -
  have "run_hook sample_tree True sample_task (Write 1) (loaded 7) = (loaded 7)\<lparr>tr_events := [sample_write]\<rparr>"
    using run_hook_sent [of "Write 1" sample_task "loaded 7"] modifies_reports [OF sample_modifies] sample_write_record
    by (simp add: loaded_def sample_task_def)
  then show ?thesis
    using bpf_program [OF sample_task_ok, of sample_tree "started 7 (sample_fs 0) daemon" True "Write 1"]
    by (simp add: sample_sent_def started_def)
qed

lemma sample_reportable: "reportable daemon sample_write"
  by (rule modification_is_reportable(1) [OF sample_modifies sample_regular sample_fits sample_write_record])
    (simp_all add: sample_task_def daemon_def sample_object_def abs_path_def)

lemma sample_sent_handled:
  obtains q where "sys_step sample_tree sample_sent (sample_sent\<lparr>sy_done := 1, sy_obj := q\<rparr>)" and "object_ok q"
    and "pd_event_queue q = [event_obj sample_write]" and "counted q = Some 1" and "pd_cache_data q" and "pd_publish q"
proof -
  have wf: "event_wf sample_write" by (rule hook_record_wf [OF sample_task_ok sample_write_record])
  obtain lt where trace: "generate_proc_trace no_procs (ev_pid sample_write) = Some (Inr ([], lt))"
    using trace_no_procs sample_write_fields(3) by metis
  obtain q l where P: "process_event no_procs sample_write daemon = Some (Inr 0, q, l)"
    using reportable_is_processed [OF daemon_object(1) no_procs_ok no_procs_env(2) wf sample_reportable _ trace
        sample_write_document] by auto
  then have H: "handle_event no_procs (Some sample_write) sizeof_event (Some daemon) = Some (Inr 0, Some q, l)"
    by (simp add: handle_event_def)
  have S: "sy_alive sample_sent" "sy_done sample_sent = 0" "tr_events (sy_tracer sample_sent) = [sample_write]"
    "sy_obj sample_sent = daemon" "tr_exec (sy_tracer sample_sent) = []"
    by (simp_all add: sample_sent_def started_def loaded_def)
  have "sys_step sample_tree sample_sent (sample_sent\<lparr>sy_done := 1, sy_obj := q\<rparr>)"
    using callback [of sample_sent no_procs 0 q l sample_tree] H S no_procs_ok by (simp add: no_procs_def map_env_def)
  moreover have "object_ok q" "pd_event_queue q = [event_obj sample_write]" "counted q = Some 1"
    using callback_keeps [OF daemon_object(1) no_procs_ok wf H] sample_reportable daemon_object(2-4)
    by (simp_all add: counts_def pushed_def daemon_size)
  moreover have "pd_cache_data q \<and> pd_publish q"
    using process_event_switches [OF P] daemon_object(4) by simp
  ultimately show thesis using that by blast
qed

theorem system_refines_monitor_witness:
  "\<exists>S S' res. sys_reaches sample_tree (started 7 (sample_fs 0) daemon) S' \<and>
    mon_step num_json [sample_write] (counts daemon) 1000 \<lparr>mo_handled = 0, mo_counted = 0, mo_queue = [], mo_answers = []\<rparr>
      (monitor_of S) \<and>
    monitor_of S = \<lparr>mo_handled = 1, mo_counted = 1, mo_queue = [event_obj sample_write], mo_answers = []\<rparr> \<and>
    mon_step num_json [sample_write] (counts (sy_obj S)) (pd_max_event_queue_size (sy_obj S)) (monitor_of S) (monitor_of S') \<and>
    monitor_of S' = \<lparr>mo_handled = 1, mo_counted = 1, mo_queue = [], mo_answers = [(Get_monitor_file_status None, res)]\<rparr>"
proof -
  let ?S0 = "started 7 (sample_fs 0) daemon"
  obtain q where q: "sys_step sample_tree sample_sent (sample_sent\<lparr>sy_done := 1, sy_obj := q\<rparr>)" "object_ok q"
    "pd_event_queue q = [event_obj sample_write]" "counted q = Some 1" "pd_cache_data q" "pd_publish q"
    by (rule sample_sent_handled)
  define S where "S = sample_sent\<lparr>sy_done := 1, sy_obj := q\<rparr>"
  obtain res f q' l where serve: "serve num_json (Get_monitor_file_status None) (sy_fs S) q = (res, f, q', l)"
    by (metis prod_cases4)
  have serve': "serve num_json (Get_monitor_file_status None) (sy_fs S) (sy_obj S) = (res, f, q', l)"
    using serve by (simp add: S_def)
  define S' where "S' = (noted (Get_monitor_file_status None) res S)\<lparr>sy_fs := f, sy_obj := q'\<rparr>"
  have sent: "sys_reaches sample_tree ?S0 sample_sent" using sample_sent_reached by (rule r_into_rtranclp)
  then have S: "sys_reaches sample_tree ?S0 S" using q(1) unfolding S_def by (rule rtranclp.rtrancl_into_rtrancl)
  have step: "sys_step sample_tree S S'" unfolding S'_def
    by (rule request) (use q serve in \<open>simp_all add: S_def sample_sent_def started_def\<close>)
  have w1: "sys_step_with num_json sample_tree sample_sent S" using q(1) by (simp add: sys_step_with_def S_def)
  have w2: "sys_step_with num_json sample_tree S S'"
    using step serve' unfolding sys_step_with_def S'_def by blast
  have alive: "sy_alive S" "sy_alive S'" by (simp_all add: S'_def S_def sample_sent_def started_def)
  have m0: "monitor_of sample_sent = \<lparr>mo_handled = 0, mo_counted = 0, mo_queue = [], mo_answers = []\<rparr>"
    using daemon_object(2,3) by (simp add: monitor_of_def sample_sent_def started_def)
  have m1: "monitor_of S = \<lparr>mo_handled = 1, mo_counted = 1, mo_queue = [event_obj sample_write], mo_answers = []\<rparr>"
    using q(3,4) by (simp add: monitor_of_def S_def sample_sent_def started_def)
  have "asked_count (pd_max_event_queue_size q) None = 10" by (simp add: asked_count_def)
  with event_answer [OF num_json_ok q(2,5) serve refl] q(3,4)
  have m2: "monitor_of S' = \<lparr>mo_handled = 1, mo_counted = 1, mo_queue = [],
      mo_answers = [(Get_monitor_file_status None, res)]\<rparr>"
    by (simp add: monitor_of_def S'_def S_def noted_def sample_sent_def started_def counted_def)
  note refines = system_refines_monitor [OF daemon_object(1,3,2) num_json_ok]
  have "mon_step num_json [sample_write] (counts daemon) 1000 (monitor_of sample_sent) (monitor_of S)"
    using refines [OF sent w1 alive(1)] daemon_object(4) by (simp add: sample_sent_def started_def daemon_size)
  moreover have "mon_step num_json [sample_write] (counts (sy_obj S)) (pd_max_event_queue_size (sy_obj S))
      (monitor_of S) (monitor_of S')"
    using refines [OF S w2 alive(2)] q(5) by (simp add: S_def sample_sent_def)
  moreover have "sys_reaches sample_tree ?S0 S'" using S step by (rule rtranclp.rtrancl_into_rtrancl)
  ultimately show ?thesis unfolding m0 using m1 m2 by blast
qed

text \<open>C8: The callback may be taken as one step, although it gives its locks away in between: whatever
  requests, rounds of the cleaning thread and BPF programs run between its sections, as long as the
  daemon lives, the state after the callback is one that an uninterrupted callback and the same threads
  reach, with the same answers to the same requests; and at any moment in between a request for events
  finds the queue as such a run has it.\<close>

theorem callback_is_atomic:
  assumes "fine_reaches K (S0, Polling) (S, g)" and "sy_alive S"
  shows "(g = Polling \<longrightarrow> sys_reaches K S0 S) \<and>
    (\<exists>S1. sys_reaches K S0 S1 \<and> sy_done S1 = sy_done S \<and> sy_event_answers S1 = sy_event_answers S \<and>
       pd_event_queue (sy_obj S1) = pd_event_queue (sy_obj S))"
proof -
  have b: "behind K S0 S g" using fine_behind [OF assms] .
  then have "g = Polling \<longrightarrow> sys_reaches K S0 S" by (auto simp: behind_def)
  with behind_handed_out [OF b] show ?thesis by (simp add: handed_out_def)
qed

theorem callback_is_atomic_witness:
  "\<forall>body. \<exists>S res. fine_reaches sample_tree (started 7 (sample_fs 0) daemon, Polling) (S, Polling) \<and>
    sys_reaches sample_tree (started 7 (sample_fs 0) daemon) S \<and>
    sy_config_answers S = [(Post_filetrace body, res)] \<and> last (pd_event_queue (sy_obj S)) = event_obj sample_write"
proof
  fix body
  let ?S0 = "started 7 (sample_fs 0) daemon"
  let ?S1 = "?S0\<lparr>sy_tracer := run_hook sample_tree True sample_task (Write 1) (sy_tracer ?S0)\<rparr>"
  have "sy_tracer ?S1 = (loaded 7)\<lparr>tr_events := [sample_write]\<rparr>"
    using run_hook_sent [of "Write 1" sample_task "loaded 7"] modifies_reports [OF sample_modifies] sample_write_record
    by (simp add: loaded_def sample_task_def started_def)
  then have S1: "current ?S1 sample_write" "tr_exec (sy_tracer ?S1) = []" "sy_obj ?S1 = daemon" "sy_alive ?S1"
    "sy_config_answers ?S1 = []"
    by (simp_all add: current_def started_def loaded_def)
  have first: "fine_step sample_tree (?S0, Polling) (?S1, Polling)"
    by (rule fine_step.other [OF program_runs [OF sample_task_ok]])
  have rep: "reportable daemon sample_write"
    by (rule modification_is_reportable(1) [OF sample_modifies sample_regular sample_fits sample_write_record])
      (simp_all add: sample_task_def daemon_def sample_object_def abs_path_def)
  obtain lt where trace: "generate_proc_trace no_procs (ev_pid sample_write) = Some (Inr ([], lt))"
    using trace_no_procs sample_write_fields(3) by metis
  have ok: "object_ok daemon" "pd_publish daemon" "pd_cache_data daemon" "counts daemon sample_write"
    using daemon_object(1,4) rep by (simp_all add: counts_def)
  have map: "en_map no_procs = map_of (tr_exec (sy_tracer ?S1))"
    unfolding S1(2) by (simp add: no_procs_def map_env_def)
  obtain q l where send: "send no_procs sample_write daemon = Some (Inr 0, q, l)"
    using reported_is_sent [OF ok(1) no_procs_ok no_procs_env(2) rep trace sample_write_document] by blast
  have "\<exists>S res. fine_reaches sample_tree (?S1, Polling) (S, Polling) \<and> sy_alive S \<and>
    sy_config_answers S = sy_config_answers ?S1 @ [(Post_filetrace body, res)] \<and>
    last (pd_event_queue (sy_obj S)) = event_obj sample_write"
    by (rule update_between_sections [OF S1(1,4) _ _ _ no_procs_ok map
          hook_record_wf [OF sample_task_ok sample_write_record]])
      (use ok send in \<open>simp_all only: S1(3)\<close>)
  then obtain S res where S: "fine_reaches sample_tree (?S1, Polling) (S, Polling)" "sy_alive S"
    "sy_config_answers S = [(Post_filetrace body, res)]" "last (pd_event_queue (sy_obj S)) = event_obj sample_write"
    unfolding S1(5) by auto
  have "fine_reaches sample_tree (?S0, Polling) (S, Polling)"
    using first S(1) by (rule converse_rtranclp_into_rtranclp)
  from callback_is_atomic [OF this S(2)] this S(3,4) show "\<exists>S res. fine_reaches sample_tree (?S0, Polling) (S, Polling) \<and> sys_reaches sample_tree ?S0 S \<and>
    sy_config_answers S = [(Post_filetrace body, res)] \<and> last (pd_event_queue (sy_obj S)) = event_obj sample_write"
    by blast
qed









end
